theory Spec2Isabelle
  imports Main "HOL-Library.Char_ord" "HOL-Library.List_Lexorder"
begin

section \<open>Plain objects\<close>

text \<open>
  An object created by \<open>{}\<close> inherits the members of \<open>Object.prototype\<close>: a property read
  \<open>obj[name]\<close> that finds no own property of that name yields the inherited member when
  \<open>name\<close> is one of the names below, and \<open>undefined\<close> otherwise. Each of these members
  is a function, or for \<open>__proto__\<close> the prototype object itself: all of them are truthy.
\<close>

definition object_prototype_names :: "string list" where
  "object_prototype_names =
     [''constructor'', ''__defineGetter__'', ''__defineSetter__'', ''hasOwnProperty'',
      ''__lookupGetter__'', ''__lookupSetter__'', ''isPrototypeOf'', ''propertyIsEnumerable'',
      ''toString'', ''valueOf'', ''__proto__'', ''toLocaleString'']"

text \<open>
  \<open>obj[name]\<close> on a plain object whose own properties are \<open>props\<close>: the own property,
  else the member inherited from \<open>Object.prototype\<close>, else nothing (\<open>undefined\<close>). An
  inherited member is truthy and has no member of its own that the code below calls.
\<close>

datatype 'a member = OwnMember 'a | InheritedMember string | NoMember

definition plain_get :: "(string \<times> 'a) list \<Rightarrow> string \<Rightarrow> 'a member" where
  "plain_get props name =
     (case map_of props name of
        Some v \<Rightarrow> OwnMember v
      | None \<Rightarrow> if name \<in> set object_prototype_names then InheritedMember name else NoMember)"



section \<open>combineReducers (src/redux-store/combine-reducers.ts)\<close>

text \<open>
  A state slice is a JavaScript value. \<open>SliceValue v\<close> is any value other than
  \<open>undefined\<close>, \<open>NaN\<close> and the members of \<open>Object.prototype\<close>; on these, equality of
  \<open>v\<close> is the strict equality \<open>===\<close> of the source (objects by reference).
  \<open>PrototypeMember n\<close> is the member \<open>n\<close> of \<open>Object.prototype\<close>.
\<close>

datatype 's slice = SliceUndefined | SliceNaN | SliceValue 's | PrototypeMember string

text \<open>\<open>a !== b\<close>: \<open>NaN\<close> differs from every value, itself included.\<close>

definition strict_neq :: "'s slice \<Rightarrow> 's slice \<Rightarrow> bool" where
  "strict_neq a b = (a \<noteq> b \<or> a = SliceNaN)"

text \<open>
  A state object: a reference, its own properties, and the properties it inherits through
  its prototype chain. Two objects are the same object (\<open>===\<close>) when they are equal here,
  reference included.
\<close>

datatype 's state_obj =
  StateObj (obj_ref: nat) (obj_props: "(string \<times> 's slice) list")
           (obj_inherited: "(string \<times> 's slice) list")

text \<open>What an object created by \<open>{}\<close> inherits.\<close>

definition object_prototype :: "(string \<times> 's slice) list" where
  "object_prototype = map (\<lambda>n. (n, PrototypeMember n)) object_prototype_names"

text \<open>
  \<open>state[key]\<close>: the own property, else the inherited one, else \<open>undefined\<close>.
\<close>

definition obj_get :: "'s state_obj \<Rightarrow> string \<Rightarrow> 's slice" where
  "obj_get st key =
     (case map_of (obj_props st) key of
        Some v \<Rightarrow> v
      | None \<Rightarrow> (case map_of (obj_inherited st) key of Some v \<Rightarrow> v | None \<Rightarrow> SliceUndefined))"

text \<open>
  \<open>nextState[key] = v\<close> on the own properties of \<open>nextState\<close>: overwrite the property in
  place, or add it last. This is what the assignment does for every key but
  \<open>__proto__\<close>, where it calls the setter that \<open>Object.prototype\<close> defines and creates no
  property; the properties below are stated for reducers objects without that key.
\<close>

fun obj_set :: "string \<Rightarrow> 's slice \<Rightarrow> (string \<times> 's slice) list \<Rightarrow> (string \<times> 's slice) list" where
  "obj_set key v [] = [(key, v)]"
| "obj_set key v ((k, w) # ps) = (if k = key then (key, v) # ps else (k, w) # obj_set key v ps)"

type_synonym ('s, 'a) reducer = "'s slice \<Rightarrow> 'a \<Rightarrow> 's slice"

text \<open>
  The body of the \<open>for (const key of keys)\<close> loop, over the entries of the \<open>reducers\<close>
  object in the order of \<open>Object.keys\<close>; the accumulator is \<open>(nextState, hasChanged)\<close>.
\<close>

fun combine_loop ::
  "(string \<times> ('s, 'a) reducer) list \<Rightarrow> 's state_obj \<Rightarrow> 'a \<Rightarrow>
   (string \<times> 's slice) list \<times> bool \<Rightarrow> (string \<times> 's slice) list \<times> bool" where
  "combine_loop [] st action acc = acc"
| "combine_loop ((key, reducer) # rest) st action (nextState, hasChanged) =
     (let prevStateForKey = obj_get st key;
          nextStateForKey = reducer prevStateForKey action
      in combine_loop rest st action
           (obj_set key nextStateForKey nextState,
            hasChanged \<or> strict_neq nextStateForKey prevStateForKey))"

text \<open>
  \<open>combinedReducer(state = {}, action)\<close>; a missing state is \<open>None\<close>. \<open>alloc\<close> is the
  next unused reference: the default \<open>{}\<close> of a missing state takes it, and
  \<open>nextState = {}\<close> takes the one after the last object allocated.
\<close>

definition combinedReducer ::
  "(string \<times> ('s, 'a) reducer) list \<Rightarrow> nat \<Rightarrow> 's state_obj option \<Rightarrow> 'a \<Rightarrow> 's state_obj" where
  "combinedReducer reducers alloc state action =
     (let st = (case state of None \<Rightarrow> StateObj alloc [] object_prototype | Some s \<Rightarrow> s);
          fresh = (case state of None \<Rightarrow> Suc alloc | Some s \<Rightarrow> alloc);
          (nextState, hasChanged) = combine_loop reducers st action ([], False)
      in if hasChanged then StateObj fresh nextState object_prototype else st)"


section \<open>The registry (createRegistry)\<close>

text \<open>
  JavaScript exceptions are values: \<open>TypeError\<close> carries the message of a
  \<open>throw new TypeError(...)\<close> of the source, or the name of the member that was
  called on a value that has no such function.
\<close>

datatype error = TypeError string

text \<open>
  A store instance. \<open>getSelectors\<close> and \<open>getActions\<close> are \<open>None\<close> when the member is
  not a function, otherwise they hold what the call returns; \<open>subscribe\<close> tells whether
  the member is a function. \<open>emitter_listeners\<close> is the listener list of the emitter that
  registration attaches to the store (\<open>None\<close> before registration).
\<close>

datatype listener = GlobalListener nat | Listener nat

record ('sel, 'act) store_instance =
  getSelectors :: "'sel option"
  getActions :: "'act option"
  subscribe :: bool
  emitter_listeners :: "listener list option"

datatype ('sel, 'act) store_ref =
  StoreName string | StoreDescriptor string "('sel, 'act) store_instance"

fun getStoreName :: "('sel, 'act) store_ref \<Rightarrow> string" where
  "getStoreName (StoreName n) = n"
| "getStoreName (StoreDescriptor n inst) = n"

text \<open>
  The closure state of one \<open>createRegistry\<close> call: the own properties of the \<open>stores\<close>
  object (a plain \<open>{}\<close>), the \<open>parent\<close> registry, the \<open>listeningStores\<close> set (\<open>None\<close> for \<open>null\<close>), a number
  that identifies the registry's \<open>globalListener\<close>, and the messages written with
  \<open>console.error\<close>.
\<close>

datatype ('sel, 'act) registry =
  Registry (stores: "(string \<times> ('sel, 'act) store_instance) list")
           (parent: "('sel, 'act) registry option")
           (listeningStores: "string list option")
           (registry_id: nat)
           (console_errors: "string list")

text \<open>\<open>listeningStores?.add(storeName)\<close>, on a set kept in insertion order.\<close>

definition listening_add :: "string \<Rightarrow> string list option \<Rightarrow> string list option" where
  "listening_add n ls =
     (case ls of None \<Rightarrow> None | Some xs \<Rightarrow> Some (if n \<in> set xs then xs else xs @ [n]))"

text \<open>
  \<open>select(storeNameOrDescriptor)\<close>. The result is \<open>None\<close> for \<open>undefined\<close>. The parent
  is an object the child shares, so the call on it returns the parent's new state too.
  \<open>stores[storeName]\<close> is a property read on a plain object: for a name such as
  \<open>toString\<close> with no store registered it yields the member of \<open>Object.prototype\<close>,
  which is truthy and has no \<open>getSelectors\<close>, so that the call
  \<open>store.getSelectors()\<close> throws a \<open>TypeError\<close>.
\<close>

fun select ::
  "('sel, 'act) store_ref \<Rightarrow> ('sel, 'act) registry \<Rightarrow> error + ('sel option \<times> ('sel, 'act) registry)" where
  "select sn (Registry sts par ls rid con) =
     (let storeName = getStoreName sn;
          ls' = listening_add storeName ls
      in case plain_get sts storeName of
           OwnMember store \<Rightarrow>
             (case getSelectors store of
                None \<Rightarrow> Inl (TypeError ''store.getSelectors is not a function'')
              | Some sel \<Rightarrow> Inr (Some sel, Registry sts par ls' rid con))
         | InheritedMember n \<Rightarrow> Inl (TypeError ''store.getSelectors is not a function'')
         | NoMember \<Rightarrow>
             (case par of
                None \<Rightarrow> Inr (None, Registry sts None ls' rid con)
              | Some p \<Rightarrow>
                  (case select (StoreName storeName) p of
                     Inl e \<Rightarrow> Inl e
                   | Inr (res, p') \<Rightarrow> Inr (res, Registry sts (Some p') ls' rid con))))"

text \<open>
  \<open>registerStoreInstance(name, createStore)\<close>. \<open>createStore\<close> is given as the store object
  the call \<open>createStore()\<close> returns. The test \<open>if (stores[name])\<close> is a property read on
  the plain \<open>stores\<close> object, true also for the name of a member of \<open>Object.prototype\<close>;
  the call then returns \<open>stores[name]\<close>, a store or that member. On success the store gets its emitter, its
  \<open>subscribe\<close> is wrapped, it is stored under \<open>name\<close> and the registry's global listener
  subscribes to it. The copy of the parent's private actions and selectors sits in a
  \<open>try\<close> whose \<open>catch\<close> ignores every failure and touches no state modelled here.
\<close>

definition registerStoreInstance ::
  "string \<Rightarrow> ('sel, 'act) store_instance \<Rightarrow> ('sel, 'act) registry \<Rightarrow>
   error + (('sel, 'act) store_instance member \<times> ('sel, 'act) registry)" where
  "registerStoreInstance name createStore reg =
     (if plain_get (stores reg) name \<noteq> NoMember then
        Inr (plain_get (stores reg) name,
             Registry (stores reg) (parent reg) (listeningStores reg) (registry_id reg)
               (console_errors reg @ [''Store \"'' @ name @ ''\" is already registered.'']))
      else
          (let store = createStore in
           if getSelectors store = None then Inl (TypeError ''store.getSelectors must be a function'')
           else if getActions store = None then Inl (TypeError ''store.getActions must be a function'')
           else if \<not> subscribe store then Inl (TypeError ''store.subscribe must be a function'')
           else
             (let store' = store\<lparr>emitter_listeners := Some [GlobalListener (registry_id reg)]\<rparr>
              in Inr (OwnMember store',
                      Registry (stores reg @ [(name, store')]) (parent reg) (listeningStores reg)
                        (registry_id reg) (console_errors reg)))))"

text \<open>\<open>register(store)\<close> and the deprecated \<open>registerGenericStore(name, store)\<close>.\<close>

fun register ::
  "('sel, 'act) store_ref \<Rightarrow> ('sel, 'act) registry \<Rightarrow> error + ('sel, 'act) registry" where
  "register (StoreDescriptor n inst) reg =
     (case registerStoreInstance n inst reg of Inl e \<Rightarrow> Inl e | Inr (st, reg') \<Rightarrow> Inr reg')"
| "register (StoreName n) reg = Inl (TypeError ''store.instantiate is not a function'')"

definition registerGenericStore ::
  "string \<Rightarrow> ('sel, 'act) store_instance \<Rightarrow> ('sel, 'act) registry \<Rightarrow> error + ('sel, 'act) registry" where
  "registerGenericStore name store reg =
     (case registerStoreInstance name store reg of Inl e \<Rightarrow> Inl e | Inr (st, reg') \<Rightarrow> Inr reg')"

text \<open>
  \<open>registerStore(storeName, options)\<close>: \<open>has_reducer\<close> is the truthiness of
  \<open>options.reducer\<close>, and \<open>instance\<close> the store that
  \<open>createReduxStore(storeName, options).instantiate(registry)\<close> builds. The result is the
  value whose \<open>store\<close> member the source returns.
\<close>

definition registerStore ::
  "string \<Rightarrow> bool \<Rightarrow> ('sel, 'act) store_instance \<Rightarrow> ('sel, 'act) registry \<Rightarrow>
   error + (('sel, 'act) store_instance member \<times> ('sel, 'act) registry)" where
  "registerStore storeName has_reducer instance reg =
     (if \<not> has_reducer then Inl (TypeError ''Must specify store reducer'')
      else registerStoreInstance storeName instance reg)"


section \<open>JavaScript values\<close>

text \<open>
  A primitive value, or an object: its reference, whether it is an array, and its own
  enumerable properties. Objects are not mutated while they serve as keys, dependants or
  arguments, so an object is the same object (\<open>===\<close>) exactly when it is equal here,
  reference included; two objects with different references and equal properties are
  different objects with the same shape. Numbers are integers: \<open>NaN\<close> and \<open>-0\<close> are
  not represented.
\<close>

datatype prim = PUndefined | PNull | PBool bool | PNum int | PStr string

datatype jsval = Prim prim | Obj nat bool "(string \<times> jsval) list"

text \<open>\<open>isObject(value)\<close>: \<open>!!value && 'object' === typeof value\<close>.\<close>

fun isObject :: "jsval \<Rightarrow> bool" where
  "isObject (Prim p) = False"
| "isObject (Obj r a ps) = True"

section \<open>isShallowEqual (src/utils/is-shallow-equal.ts)\<close>

function isShallowEqual_loop :: "'a list \<Rightarrow> 'a list \<Rightarrow> nat \<Rightarrow> bool" where
  "isShallowEqual_loop a b i =
     (if i < length a
      then (if a ! i \<noteq> b ! i then False else isShallowEqual_loop a b (Suc i))
      else True)"
  by pat_completeness auto
termination
  by (relation "measure (\<lambda>(a, b, i). length a - i)") auto

declare isShallowEqual_loop.simps [simp del]

definition isShallowEqual :: "'a list \<Rightarrow> 'a list \<Rightarrow> nat \<Rightarrow> bool" where
  "isShallowEqual a b fromIndex =
     (if length a \<noteq> length b then False else isShallowEqual_loop a b fromIndex)"

section \<open>createSelector: the memoizing selector\<close>

text \<open>
  A cache object: \<open>head\<close> is the linked list of cache nodes from the head along \<open>next\<close>,
  each node its \<open>args\<close> and its \<open>val\<close>; \<open>lastDependants\<close> is \<open>None\<close> while undefined.
\<close>

record 'r cache =
  isUniqueByDependants :: bool
  head :: "(jsval list \<times> 'r) list"
  lastDependants :: "jsval list option"

text \<open>
  The tree of WeakMaps: a map holds a cache under \<open>LEAF_KEY\<close>, an object no caller can
  reach, and a nested map under each object dependant.
\<close>

datatype 'r cache_tree =
  CacheTree (leaf: "'r cache option") (children: "(jsval \<times> 'r cache_tree) list")

text \<open>\<open>createCache()\<close>, with the flag that \<open>getCache\<close> sets right after.\<close>

definition createCache :: "bool \<Rightarrow> 'r cache" where
  "createCache u = \<lparr>isUniqueByDependants = u, head = [], lastDependants = None\<rparr>"

text \<open>\<open>map.set(key, value)\<close> on a JavaScript Map in insertion order.\<close>

fun m_set :: "'k \<Rightarrow> 'v \<Rightarrow> ('k \<times> 'v) list \<Rightarrow> ('k \<times> 'v) list" where
  "m_set k v [] = [(k, v)]"
| "m_set k v ((k', v') # m) = (if k' = k then (k, v) # m else (k', v') # m_set k v m)"

text \<open>
  \<open>getCache(dependants)\<close>. The cache object it returns is mutated by the caller; here
  it is named by the list of dependants that lead to it, and the tree is returned with the
  maps and the cache that the call created.
\<close>

fun getCache :: "jsval list \<Rightarrow> 'r cache_tree \<Rightarrow> jsval list \<times> 'r cache_tree" where
  "getCache [] (CacheTree lf ch) =
     ([], CacheTree (case lf of None \<Rightarrow> Some (createCache True) | Some c \<Rightarrow> Some c) ch)"
| "getCache (dependant # rest) (CacheTree lf ch) =
     (if \<not> isObject dependant
      then ([], CacheTree (case lf of None \<Rightarrow> Some (createCache False) | Some c \<Rightarrow> Some c) ch)
      else
        (let caches = (case map_of ch dependant of Some m \<Rightarrow> m | None \<Rightarrow> CacheTree None []);
             (path, caches') = getCache rest caches
         in (dependant # path, CacheTree lf (m_set dependant caches' ch))))"

text \<open>Reading and writing the cache object that a path names.\<close>

fun cache_at :: "jsval list \<Rightarrow> 'r cache_tree \<Rightarrow> 'r cache option" where
  "cache_at [] (CacheTree lf ch) = lf"
| "cache_at (d # path) (CacheTree lf ch) =
     (case map_of ch d of None \<Rightarrow> None | Some m \<Rightarrow> cache_at path m)"

fun cache_put :: "jsval list \<Rightarrow> 'r cache \<Rightarrow> 'r cache_tree \<Rightarrow> 'r cache_tree" where
  "cache_put [] c (CacheTree lf ch) = CacheTree (Some c) ch"
| "cache_put (d # path) c (CacheTree lf ch) =
     (case map_of ch d of
        None \<Rightarrow> CacheTree lf ch
      | Some m \<Rightarrow> CacheTree lf (m_set d (cache_put path c m) ch))"

text \<open>
  The guard of \<open>callSelector\<close> on a cache that is not unique by its dependants: compare
  with the last dependants from index 0, clear on a difference, remember the dependants.
\<close>

definition guard_cache :: "jsval list \<Rightarrow> 'r cache \<Rightarrow> 'r cache" where
  "guard_cache dependants c =
     (if \<not> isUniqueByDependants c
      then (let c1 = (case lastDependants c of
                        Some l \<Rightarrow> if \<not> isShallowEqual dependants l 0 then c\<lparr>head := []\<rparr> else c
                      | None \<Rightarrow> c)
            in c1\<lparr>lastDependants := Some dependants\<rparr>)
      else c)"

text \<open>
  The \<open>while (node)\<close> loop: the first node whose arguments equal \<open>args\<close> from index 1,
  with the list once that node is unlinked.
\<close>

fun find_node ::
  "jsval list \<Rightarrow> (jsval list \<times> 'r) list \<Rightarrow> ((jsval list \<times> 'r) \<times> (jsval list \<times> 'r) list) option" where
  "find_node args [] = None"
| "find_node args (node # rest) =
     (if \<not> isShallowEqual (fst node) args 1
      then (case find_node args rest of
              None \<Rightarrow> None
            | Some (found, others) \<Rightarrow> Some (found, node # others))
      else Some (node, rest))"

text \<open>\<open>args[0] = null\<close>: an empty array grows to length one.\<close>

fun null_source :: "jsval list \<Rightarrow> jsval list" where
  "null_source [] = [Prim PNull]"
| "null_source (a # args) = Prim PNull # args"

text \<open>
  The state of one memoized selector: \<open>rootCache\<close>, and the number of times the
  underlying selector has run. The selector is given the number of its earlier runs, so
  that each run may return a value (a reference) no other run returns.
\<close>

record 'r memo =
  rootCache :: "'r cache_tree"
  calls :: nat

definition createSelector_init :: "'r memo" where
  "createSelector_init = \<lparr>rootCache = CacheTree None [], calls = 0\<rparr>"

definition clear :: "'r memo \<Rightarrow> 'r memo" where
  "clear st = st\<lparr>rootCache := CacheTree None []\<rparr>"

text \<open>\<open>arrayOf\<close>, the default \<open>getDependants\<close>, applied to the argument list.\<close>

fun arrayOf :: "jsval list \<Rightarrow> jsval list" where
  "arrayOf [] = [Prim PUndefined]"
| "arrayOf (value # rest) = [value]"

definition callSelector ::
  "(nat \<Rightarrow> jsval list \<Rightarrow> 'r) \<Rightarrow> (jsval list \<Rightarrow> jsval list) \<Rightarrow> jsval list \<Rightarrow> 'r memo \<Rightarrow> 'r \<times> 'r memo" where
  "callSelector selector getDependants args st =
     (let dependants = getDependants args;
          (path, tree) = getCache dependants (rootCache st);
          cache = guard_cache dependants
                    (case cache_at path tree of Some c \<Rightarrow> c | None \<Rightarrow> createCache False)
      in case find_node args (head cache) of
           Some (node, others) \<Rightarrow>
             (snd node,
              st\<lparr>rootCache := cache_put path (cache\<lparr>head := node # others\<rparr>) tree\<rparr>)
         | None \<Rightarrow>
             (let val = selector (calls st) args;
                  node = (null_source args, val)
              in (val,
                  st\<lparr>rootCache := cache_put path (cache\<lparr>head := node # head cache\<rparr>) tree,
                     calls := Suc (calls st)\<rparr>)))"

text \<open>
  The cache object as \<open>callSelector\<close> holds it once \<open>getCache\<close> has returned it and the
  guard has run: the cache at the end of the object dependants that come before the first
  primitive one, created by this call if the tree has none there.
\<close>

definition cache_for :: "jsval list \<Rightarrow> 'r cache_tree \<Rightarrow> 'r cache" where
  "cache_for dependants tree =
     guard_cache dependants
       (case cache_at (takeWhile isObject dependants) tree of
          Some c \<Rightarrow> c
        | None \<Rightarrow> createCache (list_all isObject dependants))"

text \<open>Sample selectors and dependants, for the concrete runs below.\<close>

definition run_number_selector :: "nat \<Rightarrow> jsval list \<Rightarrow> nat" where
  "run_number_selector n args = n"

fun count_dependants :: "jsval list \<Rightarrow> jsval list" where
  "count_dependants (Obj r a ps # rest) =
     [case map_of ps ''count'' of Some v \<Rightarrow> v | None \<Rightarrow> Prim PUndefined]"
| "count_dependants args = [Prim PUndefined]"

section \<open>EquivalentKeyMap (src/utils/equivalent-key-map.ts)\<close>

text \<open>
  What a Map of an EquivalentKeyMap holds: \<open>undefined\<close>, a value of the user's type
  \<open>V\<close>, a value pair \<open>[key, value]\<close>, or an EquivalentKeyMap (a node of the tree).

  A value pair is an array that two Maps share (\<open>_map\<close> and the leaf of the tree) and
  that \<open>getValuePair\<close> mutates, so the pairs of an instance live in a store of that
  instance, \<open>ekm_pairs\<close>, in the order of their creation, and a Map holds \<open>SPair i\<close>,
  the index of the pair in the store of the instance whose \<open>set\<close> created it. An
  EquivalentKeyMap inside the tree is referenced from one place only, so it is held
  by value; a call that mutates it returns it, and the caller writes it back.
\<close>

datatype 'v stored =
    SUndef
  | SVal 'v
  | SPair nat
  | SMap "'v ekm"
and 'v ekm =
  EKM (ekm_pairs: "(jsval \<times> 'v stored) list")
      (ekm_map: "(jsval \<times> 'v stored) list")
      (ekm_arrayTreeMap: "(jsval \<times> 'v stored) list")
      (ekm_objectTreeMap: "(jsval \<times> 'v stored) list")

text \<open>
  Beside the \<open>TypeError\<close> that JavaScript throws, \<open>OutsideModel\<close> marks the runs that
  leave what is modelled here: the source goes on with an EquivalentKeyMap instance or a
  user value where a value pair is expected, or with a pair that no store holds.
\<close>

datatype ekm_error = EkmTypeError string | OutsideModel

text \<open>The operations of a JavaScript Map, kept in insertion order.\<close>

definition m_has :: "'k \<Rightarrow> ('k \<times> 'v) list \<Rightarrow> bool" where
  "m_has k m = (map_of m k \<noteq> None)"

definition m_get :: "jsval \<Rightarrow> (jsval \<times> 'v stored) list \<Rightarrow> 'v stored" where
  "m_get k m = (case map_of m k of None \<Rightarrow> SUndef | Some v \<Rightarrow> v)"

definition m_delete :: "'k \<Rightarrow> ('k \<times> 'v) list \<Rightarrow> ('k \<times> 'v) list" where
  "m_delete k m = filter (\<lambda>e. fst e \<noteq> k) m"

text \<open>\<open>clear()\<close>, and so \<open>new EquivalentKeyMap()\<close>.\<close>

definition ekm_clear :: "'v ekm" where
  "ekm_clear = EKM [] [] [] []"

definition ekm_value_key :: jsval where
  "ekm_value_key = Prim (PStr ''_ekm_value'')"

text \<open>
  \<open>Object.keys(key).sort()\<close> together with \<open>key[property]\<close> for each property: the own
  properties of the key in the order of their sorted names.
\<close>

fun own_props :: "jsval \<Rightarrow> (string \<times> jsval) list" where
  "own_props (Obj r a ps) = ps"
| "own_props (Prim p) = []"

definition sorted_properties :: "jsval \<Rightarrow> (string \<times> jsval) list" where
  "sorted_properties key =
     map (\<lambda>property. (property,
            case map_of (own_props key) property of Some v \<Rightarrow> v | None \<Rightarrow> Prim PUndefined))
         (sort (remdups (map fst (own_props key))))"

fun isArray :: "jsval \<Rightarrow> bool" where
  "isArray (Obj r a ps) = a"
| "isArray (Prim p) = False"

text \<open>
  Writing back the node \<open>x\<close> that \<open>get(key)\<close> returned from \<open>inst\<close> and that the
  caller has mutated: it is the value of the Map entry of a primitive key, and the second
  member of the value pair of an object key.
\<close>

definition write_back :: "jsval \<Rightarrow> 'v stored \<Rightarrow> 'v ekm \<Rightarrow> 'v ekm" where
  "write_back key x inst =
     (case m_get key (ekm_map inst) of
        SPair i \<Rightarrow>
          EKM ((ekm_pairs inst)[i := (fst (ekm_pairs inst ! i), x)]) (ekm_map inst)
            (ekm_arrayTreeMap inst) (ekm_objectTreeMap inst)
      | _ \<Rightarrow>
          EKM (ekm_pairs inst) (m_set key x (ekm_map inst))
            (ekm_arrayTreeMap inst) (ekm_objectTreeMap inst))"

text \<open>The rank of a key bounds the nesting of the calls below.\<close>

fun rank :: "jsval \<Rightarrow> nat" where
  "rank (Prim p) = 1"
| "rank (Obj r a ps) = Suc (Max (insert 0 ((\<lambda>e. rank (snd e)) ` set ps)))"

definition props_rank :: "(string \<times> jsval) list \<Rightarrow> nat" where
  "props_rank ps = Max (insert 0 ((\<lambda>e. rank (snd e)) ` set ps))"

lemma sorted_properties_subset: "set (sorted_properties key) \<subseteq> set (own_props key)"
proof
  fix e
  assume "e \<in> set (sorted_properties key)"
  then obtain n where n: "n \<in> fst ` set (own_props key)"
    and e: "e = (n, case map_of (own_props key) n of Some v \<Rightarrow> v | None \<Rightarrow> Prim PUndefined)"
    by (auto simp: sorted_properties_def)
  from n obtain v where v: "map_of (own_props key) n = Some v"
    by (cases "map_of (own_props key) n") (auto simp: map_of_eq_None_iff)
  then have "(n, v) \<in> set (own_props key)" by (rule map_of_SomeD)
  then show "e \<in> set (own_props key)" by (simp add: e v)
qed

lemma props_rank_mono: "set ps \<subseteq> set qs \<Longrightarrow> props_rank ps \<le> props_rank qs"
  unfolding props_rank_def by (intro Max_mono) auto

lemma props_rank_sorted_properties: "props_rank (sorted_properties key) < rank key"
proof (cases key)
  case (Prim p)
  then show ?thesis by (simp add: sorted_properties_def props_rank_def)
next
  case (Obj r a ps)
  have "props_rank (sorted_properties key) \<le> props_rank ps"
    using sorted_properties_subset [of key] Obj by (intro props_rank_mono) simp
  moreover have "rank key = Suc (props_rank ps)"
    by (simp add: Obj props_rank_def)
  ultimately show ?thesis by linarith
qed

lemma rank_le_props_rank: "rank v \<le> props_rank ((p, v) # rest)"
  by (simp add: props_rank_def)

lemma props_rank_tail: "props_rank rest \<le> props_rank (e # rest)"
  by (intro props_rank_mono) auto

lemma measure_enter: "Suc (Suc (2 * props_rank (sorted_properties key))) \<le> 2 * rank key"
  using props_rank_sorted_properties [of key] by simp

lemma measure_value: "2 * rank v < Suc (2 * props_rank ((p, v) # rest))"
  using rank_le_props_rank [of v p rest] by simp

lemma measure_rest:
  "props_rank rest \<noteq> props_rank (e # rest) \<Longrightarrow>
   Suc (2 * props_rank rest) \<le> 2 * props_rank (e # rest)"
  using props_rank_tail [of rest e] by simp

text \<open>
  \<open>getValuePair\<close>, \<open>get\<close>, \<open>has\<close> and \<open>set\<close>. \<open>getValuePair_loop\<close> is the \<open>for\<close> loop
  of \<open>getValuePair\<close> with the read of \<open>_ekm_value\<close> that follows it, \<open>set_loop\<close> the loop
  of \<open>set\<close> with the read and the write of \<open>_ekm_value\<close>; both run on the Map that the
  variable \<open>map\<close> stands for (the tree's root Map, or the \<open>_map\<close> of the current node,
  which is what \<open>has\<close>, \<open>get\<close> and \<open>set\<close> of a node use for a string key), on the
  properties still to visit. Each call returns the instance or Map it has mutated.
\<close>

function getValuePair :: "'v ekm \<Rightarrow> jsval \<Rightarrow> ekm_error + ('v stored \<times> 'v ekm)"
  and getValuePair_loop ::
    "(jsval \<times> 'v stored) list \<Rightarrow> (string \<times> jsval) list \<Rightarrow>
     ekm_error + ('v stored \<times> (jsval \<times> 'v stored) list)"
  and ekm_get :: "'v ekm \<Rightarrow> jsval \<Rightarrow> ekm_error + ('v stored \<times> 'v ekm)"
  and ekm_has :: "'v ekm \<Rightarrow> jsval \<Rightarrow> ekm_error + (bool \<times> 'v ekm)"
  and ekm_set :: "'v ekm \<Rightarrow> jsval \<Rightarrow> 'v stored \<Rightarrow> ekm_error + 'v ekm"
  and set_loop ::
    "(jsval \<times> 'v stored) list \<Rightarrow> (string \<times> jsval) list \<Rightarrow> nat \<Rightarrow>
     ekm_error + ('v stored \<times> (jsval \<times> 'v stored) list)"
where
  "getValuePair inst key =
     (if m_has key (ekm_map inst) then Inr (m_get key (ekm_map inst), inst)
      else
        (case getValuePair_loop
                (if isArray key then ekm_arrayTreeMap inst else ekm_objectTreeMap inst)
                (sorted_properties key) of
           Inl e \<Rightarrow> Inl e
         | Inr (valuePair, tree) \<Rightarrow>
             (let arr = (if isArray key then tree else ekm_arrayTreeMap inst);
                  obj = (if isArray key then ekm_objectTreeMap inst else tree)
              in case valuePair of
                   SUndef \<Rightarrow> Inr (SUndef, EKM (ekm_pairs inst) (ekm_map inst) arr obj)
                 | SPair i \<Rightarrow>
                     (if i < length (ekm_pairs inst)
                      then Inr (SPair i,
                             EKM ((ekm_pairs inst)[i := (key, snd (ekm_pairs inst ! i))])
                               (m_set key (SPair i)
                                  (m_delete (fst (ekm_pairs inst ! i)) (ekm_map inst)))
                               arr obj)
                      else Inl OutsideModel)
                 | _ \<Rightarrow> Inl OutsideModel)))"
| "getValuePair_loop m [] = Inr (m_get ekm_value_key m, m)"
| "getValuePair_loop m ((property, propertyValue) # rest) =
     (case m_get (Prim (PStr property)) m of
        SUndef \<Rightarrow> Inr (SUndef, m)
      | SMap node \<Rightarrow>
          (case ekm_get node propertyValue of
             Inl e \<Rightarrow> Inl e
           | Inr (SUndef, node') \<Rightarrow> Inr (SUndef, m_set (Prim (PStr property)) (SMap node') m)
           | Inr (SMap next, node') \<Rightarrow>
               (case getValuePair_loop (ekm_map next) rest of
                  Inl e \<Rightarrow> Inl e
                | Inr (valuePair, m') \<Rightarrow>
                    Inr (valuePair,
                         m_set (Prim (PStr property))
                           (SMap (write_back propertyValue
                                    (SMap (EKM (ekm_pairs next) m' (ekm_arrayTreeMap next)
                                             (ekm_objectTreeMap next)))
                                    node'))
                           m))
           | Inr (SPair i, node') \<Rightarrow> Inl (EkmTypeError ''map.get is not a function'')
           | Inr (SVal v, node') \<Rightarrow> Inl OutsideModel)
      | SPair i \<Rightarrow> Inl (EkmTypeError ''map.get is not a function'')
      | SVal v \<Rightarrow> Inl OutsideModel)"
| "ekm_get inst key =
     (if \<not> isObject key then Inr (m_get key (ekm_map inst), inst)
      else
        (case getValuePair inst key of
           Inl e \<Rightarrow> Inl e
         | Inr (SUndef, inst') \<Rightarrow> Inr (SUndef, inst')
         | Inr (SPair i, inst') \<Rightarrow>
             (if i < length (ekm_pairs inst') then Inr (snd (ekm_pairs inst' ! i), inst')
              else Inl OutsideModel)
         | Inr (_, inst') \<Rightarrow> Inl OutsideModel))"
| "ekm_has inst key =
     (if \<not> isObject key then Inr (m_has key (ekm_map inst), inst)
      else
        (case getValuePair inst key of
           Inl e \<Rightarrow> Inl e
         | Inr (valuePair, inst') \<Rightarrow> Inr (valuePair \<noteq> SUndef, inst')))"
| "ekm_set inst key val =
     (if \<not> isObject key
      then Inr (EKM (ekm_pairs inst) (m_set key val (ekm_map inst))
                  (ekm_arrayTreeMap inst) (ekm_objectTreeMap inst))
      else
        (case set_loop
                (if isArray key then ekm_arrayTreeMap inst else ekm_objectTreeMap inst)
                (sorted_properties key) (length (ekm_pairs inst)) of
           Inl e \<Rightarrow> Inl e
         | Inr (previousValuePair, tree) \<Rightarrow>
             (let arr = (if isArray key then tree else ekm_arrayTreeMap inst);
                  obj = (if isArray key then ekm_objectTreeMap inst else tree);
                  valuePair = SPair (length (ekm_pairs inst));
                  store = ekm_pairs inst @ [(key, val)]
              in case previousValuePair of
                   SUndef \<Rightarrow> Inr (EKM store (m_set key valuePair (ekm_map inst)) arr obj)
                 | SPair i \<Rightarrow>
                     (if i < length (ekm_pairs inst)
                      then Inr (EKM store
                                  (m_set key valuePair
                                     (m_delete (fst (ekm_pairs inst ! i)) (ekm_map inst)))
                                  arr obj)
                      else Inl OutsideModel)
                 | SMap node \<Rightarrow>
                     Inr (EKM store
                            (m_set key valuePair (m_delete (Prim PUndefined) (ekm_map inst)))
                            arr obj)
                 | SVal v \<Rightarrow> Inl OutsideModel)))"
| "set_loop m [] valuePair = Inr (m_get ekm_value_key m, m_set ekm_value_key (SPair valuePair) m)"
| "set_loop m ((property, propertyValue) # rest) valuePair =
     (let m1 = (if \<not> m_has (Prim (PStr property)) m
                then m_set (Prim (PStr property)) (SMap ekm_clear) m else m)
      in case m_get (Prim (PStr property)) m1 of
           SMap node \<Rightarrow>
             (case ekm_has node propertyValue of
                Inl e \<Rightarrow> Inl e
              | Inr (present, node1) \<Rightarrow>
                  (case (if \<not> present then ekm_set node1 propertyValue (SMap ekm_clear)
                         else Inr node1) of
                     Inl e \<Rightarrow> Inl e
                   | Inr node2 \<Rightarrow>
                       (case ekm_get node2 propertyValue of
                          Inl e \<Rightarrow> Inl e
                        | Inr (SMap next, node3) \<Rightarrow>
                            (case set_loop (ekm_map next) rest valuePair of
                               Inl e \<Rightarrow> Inl e
                             | Inr (previousValuePair, m') \<Rightarrow>
                                 Inr (previousValuePair,
                                      m_set (Prim (PStr property))
                                        (SMap (write_back propertyValue
                                                 (SMap (EKM (ekm_pairs next) m'
                                                          (ekm_arrayTreeMap next)
                                                          (ekm_objectTreeMap next)))
                                                 node3))
                                        m1))
                        | Inr (SPair i, node3) \<Rightarrow> Inl (EkmTypeError ''map.has is not a function'')
                        | Inr (SUndef, node3) \<Rightarrow>
                            Inl (EkmTypeError ''Cannot read properties of undefined'')
                        | Inr (SVal v, node3) \<Rightarrow> Inl OutsideModel)))
         | SPair i \<Rightarrow> Inl (EkmTypeError ''map.has is not a function'')
         | SUndef \<Rightarrow> Inl (EkmTypeError ''Cannot read properties of undefined'')
         | SVal v \<Rightarrow> Inl OutsideModel)"
  by pat_completeness auto
termination
  apply (relation "inv_image (less_than <*lex*> less_than)
     (\<lambda>x. case x of
        Inl (Inl (inst, key)) \<Rightarrow> (2 * rank key + 1, 0)
      | Inl (Inr (Inl (m, ps))) \<Rightarrow> (2 * props_rank ps + 2, length ps)
      | Inl (Inr (Inr (inst, key))) \<Rightarrow> (2 * rank key + 1, 1)
      | Inr (Inl (inst, key)) \<Rightarrow> (2 * rank key + 1, 1)
      | Inr (Inr (Inl (inst, key, val))) \<Rightarrow> (2 * rank key + 1, 1)
      | Inr (Inr (Inr (m, ps, vp))) \<Rightarrow> (2 * props_rank ps + 2, length ps))")
  apply (auto simp: measure_enter measure_value measure_rest rank_le_props_rank less_Suc_eq_le)
  done

declare getValuePair.simps [simp del] getValuePair_loop.simps [simp del]
  ekm_get.simps [simp del] ekm_has.simps [simp del] ekm_set.simps [simp del]
  set_loop.simps [simp del]

text \<open>\<open>delete(key)\<close>.\<close>

definition ekm_delete :: "'v ekm \<Rightarrow> jsval \<Rightarrow> ekm_error + (bool \<times> 'v ekm)" where
  "ekm_delete inst key =
     (case ekm_has inst key of
        Inl e \<Rightarrow> Inl e
      | Inr (present, inst') \<Rightarrow>
          (if \<not> present then Inr (False, inst')
           else (case ekm_set inst' key SUndef of
                   Inl e \<Rightarrow> Inl e
                 | Inr inst'' \<Rightarrow> Inr (True, inst''))))"

text \<open>
  \<open>value[1]\<close> for a value read from \<open>_map\<close>: the second member of a value pair;
  a TypeError on \<open>undefined\<close>; \<open>undefined\<close> on an EquivalentKeyMap instance, which
  has no property \<open>1\<close>; \<open>at1 v\<close> on a user value \<open>v\<close>.
\<close>

definition index1 ::
  "('v \<Rightarrow> 'v stored) \<Rightarrow> (jsval \<times> 'v stored) list \<Rightarrow> 'v stored \<Rightarrow> ekm_error + 'v stored" where
  "index1 at1 store raw =
     (case raw of
        SPair i \<Rightarrow> if i < length store then Inr (snd (store ! i)) else Inl OutsideModel
      | SUndef \<Rightarrow> Inl (EkmTypeError ''Cannot read properties of undefined (reading '1')'')
      | SMap node \<Rightarrow> Inr SUndef
      | SVal v \<Rightarrow> Inr (at1 v))"

text \<open>
  \<open>forEach(callback)\<close>, as the list of the \<open>(key, value)\<close> that the callback receives,
  in the order of \<open>_map\<close>: the value of an object key is unwrapped from its pair.
\<close>

fun forEach_entries ::
  "('v \<Rightarrow> 'v stored) \<Rightarrow> (jsval \<times> 'v stored) list \<Rightarrow> (jsval \<times> 'v stored) list \<Rightarrow>
   ekm_error + (jsval \<times> 'v stored) list" where
  "forEach_entries at1 store [] = Inr []"
| "forEach_entries at1 store ((key, raw) # rest) =
     (case (if isObject key then index1 at1 store raw else Inr raw) of
        Inl e \<Rightarrow> Inl e
      | Inr val \<Rightarrow>
          (case forEach_entries at1 store rest of
             Inl e \<Rightarrow> Inl e
           | Inr es \<Rightarrow> Inr ((key, val) # es)))"

definition ekm_forEach ::
  "('v \<Rightarrow> 'v stored) \<Rightarrow> 'v ekm \<Rightarrow> ekm_error + (jsval \<times> 'v stored) list" where
  "ekm_forEach at1 inst = forEach_entries at1 (ekm_pairs inst) (ekm_map inst)"

text \<open>
  The constructor: \<open>this.set(iterable[i][0], iterable[i][1])\<close> for each entry, on a
  cleared instance; for an EquivalentKeyMap the entries are those of its \<open>forEach\<close>.
\<close>

fun set_all :: "'v ekm \<Rightarrow> (jsval \<times> 'v stored) list \<Rightarrow> ekm_error + 'v ekm" where
  "set_all inst [] = Inr inst"
| "set_all inst ((key, val) # rest) =
     (case ekm_set inst key val of Inl e \<Rightarrow> Inl e | Inr inst' \<Rightarrow> set_all inst' rest)"

definition ekm_new :: "('v \<Rightarrow> 'v stored) \<Rightarrow> 'v ekm \<Rightarrow> ekm_error + 'v ekm" where
  "ekm_new at1 iterable =
     (case ekm_forEach at1 iterable of
        Inl e \<Rightarrow> Inl e
      | Inr iterablePairs \<Rightarrow> set_all ekm_clear iterablePairs)"

text \<open>
  \<open>some(callback)\<close>: the callback receives the key and \<open>value[1]\<close>, for the entries of
  \<open>_map\<close> in order, until it returns true; what it throws is thrown.
\<close>

fun some_loop ::
  "('v \<Rightarrow> 'v stored) \<Rightarrow> (jsval \<Rightarrow> 'v stored \<Rightarrow> ekm_error + bool) \<Rightarrow>
   (jsval \<times> 'v stored) list \<Rightarrow> (jsval \<times> 'v stored) list \<Rightarrow> ekm_error + bool" where
  "some_loop at1 callback store [] = Inr False"
| "some_loop at1 callback store ((key, raw) # rest) =
     (case index1 at1 store raw of
        Inl e \<Rightarrow> Inl e
      | Inr val \<Rightarrow>
          (case callback key val of
             Inl e \<Rightarrow> Inl e
           | Inr True \<Rightarrow> Inr True
           | Inr False \<Rightarrow> some_loop at1 callback store rest))"

definition ekm_some ::
  "('v \<Rightarrow> 'v stored) \<Rightarrow> (jsval \<Rightarrow> 'v stored \<Rightarrow> ekm_error + bool) \<Rightarrow> 'v ekm \<Rightarrow> ekm_error + bool" where
  "ekm_some at1 callback inst = some_loop at1 callback (ekm_pairs inst) (ekm_map inst)"

section \<open>The resolution state: reducer and selectors\<close>

datatype status = Resolving | Finished | Error

text \<open>
  A state value \<open>{status, error}\<close>: \<open>error\<close> is \<open>None\<close> when the object has no such
  property. It has no property \<open>1\<close>. An argument list (\<open>args\<close>) is a JavaScript
  array, an object with its reference.
\<close>

record state_value =
  status :: status
  error :: "jsval option"

definition state_value_at1 :: "state_value \<Rightarrow> state_value stored" where
  "state_value_at1 v = SUndef"

type_synonym resolution_state = "(string \<times> state_value ekm) list"

datatype action =
    START_RESOLUTION string jsval
  | FINISH_RESOLUTION string jsval
  | FAIL_RESOLUTION string jsval jsval
  | START_RESOLUTIONS string "jsval list"
  | FINISH_RESOLUTIONS string "jsval list"
  | FAIL_RESOLUTIONS string "jsval list" "jsval list"
  | INVALIDATE_RESOLUTION string jsval
  | INVALIDATE_RESOLUTION_FOR_STORE
  | INVALIDATE_RESOLUTION_FOR_STORE_SELECTOR string
  | OTHER_ACTION

text \<open>The action creators of the source.\<close>

definition startResolution :: "string \<Rightarrow> jsval \<Rightarrow> action" where
  "startResolution selectorName args = START_RESOLUTION selectorName args"

definition finishResolution :: "string \<Rightarrow> jsval \<Rightarrow> action" where
  "finishResolution selectorName args = FINISH_RESOLUTION selectorName args"

definition failResolution :: "string \<Rightarrow> jsval \<Rightarrow> jsval \<Rightarrow> action" where
  "failResolution selectorName args err = FAIL_RESOLUTION selectorName args err"

definition invalidateResolution :: "string \<Rightarrow> jsval \<Rightarrow> action" where
  "invalidateResolution selectorName args = INVALIDATE_RESOLUTION selectorName args"

fun action_selectorName :: "action \<Rightarrow> string option" where
  "action_selectorName (START_RESOLUTION n a) = Some n"
| "action_selectorName (FINISH_RESOLUTION n a) = Some n"
| "action_selectorName (FAIL_RESOLUTION n a e) = Some n"
| "action_selectorName (START_RESOLUTIONS n a) = Some n"
| "action_selectorName (FINISH_RESOLUTIONS n a) = Some n"
| "action_selectorName (FAIL_RESOLUTIONS n a e) = Some n"
| "action_selectorName (INVALIDATE_RESOLUTION n a) = Some n"
| "action_selectorName INVALIDATE_RESOLUTION_FOR_STORE = None"
| "action_selectorName (INVALIDATE_RESOLUTION_FOR_STORE_SELECTOR n) = Some n"
| "action_selectorName OTHER_ACTION = None"

text \<open>The truthiness of a JavaScript value (\<open>if (error)\<close>).\<close>

fun truthy :: "jsval \<Rightarrow> bool" where
  "truthy (Prim PUndefined) = False"
| "truthy (Prim PNull) = False"
| "truthy (Prim (PBool b)) = b"
| "truthy (Prim (PNum n)) = (n \<noteq> 0)"
| "truthy (Prim (PStr s)) = (s \<noteq> [])"
| "truthy (Obj r a ps) = True"

text \<open>
  The loops of the batch actions: one \<open>set\<close> per argument list; for
  \<open>FAIL_RESOLUTIONS\<close>, \<open>action.errors[idx]\<close> is \<open>undefined\<close> past the end of \<open>errors\<close>,
  and the state value keeps \<open>error: undefined\<close> unless the error is truthy.
\<close>

fun set_each ::
  "(jsval option \<Rightarrow> jsval) \<Rightarrow> state_value \<Rightarrow> state_value ekm \<Rightarrow> jsval list \<Rightarrow>
   ekm_error + state_value ekm" where
  "set_each toKey v nextState [] = Inr nextState"
| "set_each toKey v nextState (resolutionArgs # rest) =
     (case ekm_set nextState (toKey (Some resolutionArgs)) (SVal v) of
        Inl e \<Rightarrow> Inl e
      | Inr nextState' \<Rightarrow> set_each toKey v nextState' rest)"

fun fail_each ::
  "(jsval option \<Rightarrow> jsval) \<Rightarrow> state_value ekm \<Rightarrow> jsval list \<Rightarrow> jsval list \<Rightarrow> nat \<Rightarrow>
   ekm_error + state_value ekm" where
  "fail_each toKey nextState [] errors idx = Inr nextState"
| "fail_each toKey nextState (resolutionArgs # rest) errors idx =
     (let err = (if idx < length errors then errors ! idx else Prim PUndefined);
          resolutionState = \<lparr>status = Error,
                              error = Some (if truthy err then err else Prim PUndefined)\<rparr>
      in case ekm_set nextState (toKey (Some resolutionArgs)) (SVal resolutionState) of
           Inl e \<Rightarrow> Inl e
         | Inr nextState' \<Rightarrow> fail_each toKey nextState' rest errors (Suc idx))"

text \<open>
  The reducer that \<open>subKeysIsResolved\<close> hands to \<open>onSubKey\<close>, on the EquivalentKeyMap of
  one selector (\<open>new EquivalentKeyMap()\<close> when the state has none). The function
  \<open>selectorArgsToStateKey\<close> is not among the sources: it is the parameter \<open>toKey\<close>, from
  the argument array, or \<open>undefined\<close>, to the key.
\<close>

definition subKeysIsResolved_reducer ::
  "(jsval option \<Rightarrow> jsval) \<Rightarrow> state_value ekm option \<Rightarrow> action \<Rightarrow>
   ekm_error + state_value ekm" where
  "subKeysIsResolved_reducer toKey state action =
     (let st = (case state of None \<Rightarrow> ekm_clear | Some s \<Rightarrow> s)
      in case action of
           START_RESOLUTION n args \<Rightarrow>
             (case ekm_new state_value_at1 st of
                Inl e \<Rightarrow> Inl e
              | Inr nextState \<Rightarrow>
                  ekm_set nextState (toKey (Some args)) (SVal \<lparr>status = Resolving, error = None\<rparr>))
         | FINISH_RESOLUTION n args \<Rightarrow>
             (case ekm_new state_value_at1 st of
                Inl e \<Rightarrow> Inl e
              | Inr nextState \<Rightarrow>
                  ekm_set nextState (toKey (Some args)) (SVal \<lparr>status = Finished, error = None\<rparr>))
         | FAIL_RESOLUTION n args err \<Rightarrow>
             (case ekm_new state_value_at1 st of
                Inl e \<Rightarrow> Inl e
              | Inr nextState \<Rightarrow>
                  ekm_set nextState (toKey (Some args)) (SVal \<lparr>status = Error, error = Some err\<rparr>))
         | START_RESOLUTIONS n argss \<Rightarrow>
             (case ekm_new state_value_at1 st of
                Inl e \<Rightarrow> Inl e
              | Inr nextState \<Rightarrow>
                  set_each toKey \<lparr>status = Resolving, error = None\<rparr> nextState argss)
         | FINISH_RESOLUTIONS n argss \<Rightarrow>
             (case ekm_new state_value_at1 st of
                Inl e \<Rightarrow> Inl e
              | Inr nextState \<Rightarrow>
                  set_each toKey \<lparr>status = Finished, error = None\<rparr> nextState argss)
         | FAIL_RESOLUTIONS n argss errors \<Rightarrow>
             (case ekm_new state_value_at1 st of
                Inl e \<Rightarrow> Inl e
              | Inr nextState \<Rightarrow> fail_each toKey nextState argss errors 0)
         | INVALIDATE_RESOLUTION n args \<Rightarrow>
             (case ekm_new state_value_at1 st of
                Inl e \<Rightarrow> Inl e
              | Inr nextState \<Rightarrow>
                  (case ekm_delete nextState (toKey (Some args)) of
                     Inl e \<Rightarrow> Inl e
                   | Inr (deleted, nextState') \<Rightarrow> Inr nextState'))
         | _ \<Rightarrow> Inr st)"

text \<open>
  Modelled from the spec: \<open>onSubKey\<close> is not among the sources. The resolution state is
  a mapping from selector name to an EquivalentKeyMap, and a resolution action changes
  the entry of its own selector only: the reducer runs on the map stored under
  \<open>action.selectorName\<close> and its result is stored under that name.
\<close>

definition onSubKey ::
  "('s option \<Rightarrow> action \<Rightarrow> ekm_error + 's) \<Rightarrow> (string \<times> 's) list \<Rightarrow> action \<Rightarrow>
   ekm_error + (string \<times> 's) list" where
  "onSubKey reducer state action =
     (case action_selectorName action of
        None \<Rightarrow> Inr state
      | Some key \<Rightarrow>
          (case reducer (map_of state key) action of
             Inl e \<Rightarrow> Inl e
           | Inr nextKeyState \<Rightarrow> Inr (m_set key nextKeyState state)))"

definition subKeysIsResolved ::
  "(jsval option \<Rightarrow> jsval) \<Rightarrow> resolution_state \<Rightarrow> action \<Rightarrow> ekm_error + resolution_state" where
  "subKeysIsResolved toKey = onSubKey (subKeysIsResolved_reducer toKey)"

text \<open>
  \<open>isResolved\<close>, the reducer of the resolution state. \<open>action.selectorName in state\<close>
  holds for an own property and for an inherited one; the rest object has the own
  properties of the state but the one removed.
\<close>

definition isResolved ::
  "(jsval option \<Rightarrow> jsval) \<Rightarrow> resolution_state \<Rightarrow> action \<Rightarrow> ekm_error + resolution_state" where
  "isResolved toKey state action =
     (case action of
        INVALIDATE_RESOLUTION_FOR_STORE \<Rightarrow> Inr []
      | INVALIDATE_RESOLUTION_FOR_STORE_SELECTOR selectorName \<Rightarrow>
          (if plain_get state selectorName \<noteq> NoMember then Inr (m_delete selectorName state)
           else Inr state)
      | OTHER_ACTION \<Rightarrow> Inr state
      | _ \<Rightarrow> subKeysIsResolved toKey state action)"

text \<open>
  The selectors. \<open>map.get\<close> may mutate the EquivalentKeyMap of the state, so a selector
  returns the state with its result. The state is a plain object, and
  \<open>state[selectorName]\<close> a property read on it: for a name such as \<open>toString\<close> with no
  map of its own it yields the member of \<open>Object.prototype\<close>, which is truthy and has no
  \<open>get\<close>.
\<close>

definition getResolutionState ::
  "(jsval option \<Rightarrow> jsval) \<Rightarrow> resolution_state \<Rightarrow> string \<Rightarrow> jsval option \<Rightarrow>
   ekm_error + (state_value stored \<times> resolution_state)" where
  "getResolutionState toKey state selectorName args =
     (case plain_get state selectorName of
        NoMember \<Rightarrow> Inr (SUndef, state)
      | InheritedMember n \<Rightarrow> Inl (EkmTypeError ''map.get is not a function'')
      | OwnMember m \<Rightarrow>
          (case ekm_get m (toKey args) of
             Inl e \<Rightarrow> Inl e
           | Inr (v, m') \<Rightarrow> Inr (v, m_set selectorName m' state)))"

text \<open>\<open>x?.status\<close>: \<open>None\<close> is \<open>undefined\<close>.\<close>

fun optional_status :: "state_value stored \<Rightarrow> status option" where
  "optional_status (SVal v) = Some (status v)"
| "optional_status x = None"

definition hasStartedResolution ::
  "(jsval option \<Rightarrow> jsval) \<Rightarrow> resolution_state \<Rightarrow> string \<Rightarrow> jsval option \<Rightarrow>
   ekm_error + (bool \<times> resolution_state)" where
  "hasStartedResolution toKey state selectorName args =
     (case getResolutionState toKey state selectorName args of
        Inl e \<Rightarrow> Inl e
      | Inr (v, state') \<Rightarrow> Inr (v \<noteq> SUndef, state'))"

definition hasFinishedResolution ::
  "(jsval option \<Rightarrow> jsval) \<Rightarrow> resolution_state \<Rightarrow> string \<Rightarrow> jsval option \<Rightarrow>
   ekm_error + (bool \<times> resolution_state)" where
  "hasFinishedResolution toKey state selectorName args =
     (case getResolutionState toKey state selectorName args of
        Inl e \<Rightarrow> Inl e
      | Inr (v, state') \<Rightarrow>
          Inr (optional_status v = Some Finished \<or> optional_status v = Some Error, state'))"

definition hasResolutionFailed ::
  "(jsval option \<Rightarrow> jsval) \<Rightarrow> resolution_state \<Rightarrow> string \<Rightarrow> jsval option \<Rightarrow>
   ekm_error + (bool \<times> resolution_state)" where
  "hasResolutionFailed toKey state selectorName args =
     (case getResolutionState toKey state selectorName args of
        Inl e \<Rightarrow> Inl e
      | Inr (v, state') \<Rightarrow> Inr (optional_status v = Some Error, state'))"

definition isResolving ::
  "(jsval option \<Rightarrow> jsval) \<Rightarrow> resolution_state \<Rightarrow> string \<Rightarrow> jsval option \<Rightarrow>
   ekm_error + (bool \<times> resolution_state)" where
  "isResolving toKey state selectorName args =
     (case getResolutionState toKey state selectorName args of
        Inl e \<Rightarrow> Inl e
      | Inr (v, state') \<Rightarrow> Inr (optional_status v = Some Resolving, state'))"

text \<open>
  \<open>hasResolvingSelectors\<close>: \<open>Object.values(state).some(...)\<close> over the maps of the
  selectors, each asked with \<open>some((_, resolution) => resolution.status === 'resolving')\<close>.
  Reading \<open>status\<close> of \<open>undefined\<close> throws; a value pair or a map has no such property.
\<close>

fun resolution_is_resolving :: "jsval \<Rightarrow> state_value stored \<Rightarrow> ekm_error + bool" where
  "resolution_is_resolving key (SVal v) = Inr (status v = Resolving)"
| "resolution_is_resolving key SUndef =
     Inl (EkmTypeError ''Cannot read properties of undefined (reading 'status')'')"
| "resolution_is_resolving key x = Inr False"

fun hasResolvingSelectors :: "resolution_state \<Rightarrow> ekm_error + bool" where
  "hasResolvingSelectors [] = Inr False"
| "hasResolvingSelectors ((selectorName, selectorState) # rest) =
     (case ekm_some state_value_at1 resolution_is_resolving selectorState of
        Inl e \<Rightarrow> Inl e
      | Inr True \<Rightarrow> Inr True
      | Inr False \<Rightarrow> hasResolvingSelectors rest)"

text \<open>
  For the concrete runs below, \<open>selectorArgsToStateKey\<close> as the upstream package has
  it, on argument arrays that do not end in \<open>undefined\<close>: the array itself, and a
  new empty array for \<open>undefined\<close>.
\<close>

definition sample_toKey :: "jsval option \<Rightarrow> jsval" where
  "sample_toKey args = (case args of None \<Rightarrow> Obj 0 True [] | Some a \<Rightarrow> a)"

section \<open>Properties of combineReducers\<close>

lemma combine_loop_changed:
  "snd (combine_loop rs st action (ns, ch)) =
     (ch \<or> (\<exists>(k, r) \<in> set rs. strict_neq (r (obj_get st k) action) (obj_get st k)))"
proof (induction rs arbitrary: ns ch)
  case Nil
  then show ?case by simp
next
  case (Cons a rs)
  obtain k r where a: "a = (k, r)" by (cases a)
  show ?case
    unfolding a by (simp add: Let_def Cons.IH)
qed

lemma combine_loop_props:
  "distinct (map fst rs) \<Longrightarrow> fst ` set rs \<inter> fst ` set ns = {} \<Longrightarrow>
   fst (combine_loop rs st action (ns, ch)) =
     ns @ map (\<lambda>(k, r). (k, r (obj_get st k) action)) rs"
proof (induction rs arbitrary: ns ch)
  case Nil
  then show ?case by simp
next
  case (Cons a rs)
  obtain k r where a: "a = (k, r)" by (cases a)
  from Cons.prems have nk: "k \<notin> fst ` set ns" and d: "distinct (map fst rs)"
    and kr: "k \<notin> fst ` set rs" and disj: "fst ` set rs \<inter> fst ` set ns = {}"
    by (auto simp: a)
  have upd: "obj_set k v ns = ns @ [(k, v)]" for v
    using nk by (induction ns) auto
  have disj': "fst ` set rs \<inter> fst ` set (ns @ [(k, r (obj_get st k) action)]) = {}"
    using disj kr by auto
  show ?case
    using Cons.IH [OF d disj'] by (simp add: a Let_def upd)
qed

text \<open>
  C10, the claim as stated fails. The state \<open>{a: NaN}\<close> and the sub-reducer
  \<open>s => s\<close>: the sub-reducer returns the slice it was given, and the combined reducer
  returns a new object, not the state it was given.
\<close>

theorem nan_slice_returned_unchanged_gives_new_object_counterexample:
  "(\<lambda>s a. s) (obj_get (StateObj 3 [(''a'', SliceNaN :: nat slice)] object_prototype) ''a'') ()
     = obj_get (StateObj 3 [(''a'', SliceNaN :: nat slice)] object_prototype) ''a''
   \<and> combinedReducer [(''a'', \<lambda>s a. s)] 7
        (Some (StateObj 3 [(''a'', SliceNaN :: nat slice)] object_prototype)) ()
     = StateObj 7 [(''a'', SliceNaN)] object_prototype
   \<and> combinedReducer [(''a'', \<lambda>s a. s)] 7
        (Some (StateObj 3 [(''a'', SliceNaN :: nat slice)] object_prototype)) ()
     \<noteq> StateObj 3 [(''a'', SliceNaN)] object_prototype"
  by (simp add: combinedReducer_def obj_get_def strict_neq_def)

text \<open>
  C10, as amended. The combined reducer returns the state object it was given, the same
  reference, exactly when every sub-reducer returns a slice that is strictly equal
  (\<open>===\<close>) to its previous slice, which \<open>NaN\<close> never is; otherwise it returns a newly
  allocated object that holds the result of every sub-reducer under its key. The keys of
  a reducers object are distinct; \<open>__proto__\<close> is not among them.
\<close>

theorem combineReducers_preserves_identity_by_strict_equality:
  assumes "distinct (map fst reducers)" and "''__proto__'' \<notin> fst ` set reducers"
  shows "combinedReducer reducers alloc (Some st) action =
     (if \<forall>(k, r) \<in> set reducers. \<not> strict_neq (r (obj_get st k) action) (obj_get st k) then st
      else StateObj alloc (map (\<lambda>(k, r). (k, r (obj_get st k) action)) reducers)
             object_prototype)"
proof -
  obtain ns ch where l: "combine_loop reducers st action ([], False) = (ns, ch)"
    by (cases "combine_loop reducers st action ([], False)")
  have ch: "ch = (\<exists>(k, r) \<in> set reducers. strict_neq (r (obj_get st k) action) (obj_get st k))"
    using combine_loop_changed [of reducers st action "[]" False] l by simp
  have ns: "ns = map (\<lambda>(k, r). (k, r (obj_get st k) action)) reducers"
    using combine_loop_props [OF assms(1), of "[]" st action False] l by simp
  show ?thesis
    unfolding combinedReducer_def using ch ns l by (auto simp: Let_def)
qed

theorem combineReducers_preserves_identity_by_strict_equality_witness:
  "combinedReducer [(''a'', \<lambda>s a. s), (''toString'', \<lambda>s a. s)] 7
       (Some (StateObj 3 [(''a'', SliceValue (1::nat))] object_prototype)) () =
     StateObj 3 [(''a'', SliceValue 1)] object_prototype \<and>
   combinedReducer [(''a'', \<lambda>s a. s), (''b'', \<lambda>s a. SliceValue 5)] 7
       (Some (StateObj 3 [(''a'', SliceValue (1::nat)), (''b'', SliceValue 2)] object_prototype)) () =
     StateObj 7 [(''a'', SliceValue 1), (''b'', SliceValue 5)] object_prototype"
  using combineReducers_preserves_identity_by_strict_equality
      [of "[(''a'', \<lambda>s a. s), (''toString'', \<lambda>s a. s)]" 7
          "StateObj 3 [(''a'', SliceValue (1::nat))] object_prototype" "()"]
    combineReducers_preserves_identity_by_strict_equality
      [of "[(''a'', \<lambda>s a. s), (''b'', \<lambda>s a. SliceValue 5)]" 7
          "StateObj 3 [(''a'', SliceValue (1::nat)), (''b'', SliceValue 2)] object_prototype" "()"]
  by (simp add: obj_get_def strict_neq_def object_prototype_def object_prototype_names_def)


section \<open>Properties of the registry\<close>

lemma select_local:
  "map_of (stores reg) (getStoreName sn) = Some st \<Longrightarrow> getSelectors st = Some sel \<Longrightarrow>
   \<exists>reg'. select sn reg = Inr (Some sel, reg') \<and> stores reg' = stores reg"
  by (cases reg) (simp add: Let_def plain_get_def)

text \<open>
  C8. Registering under a name that is already registered, through
  \<open>registerStoreInstance\<close>, \<open>register\<close>, \<open>registerGenericStore\<close> or \<open>registerStore\<close>
  with a reducer, throws nothing: it writes one \<open>console.error\<close> message, returns the
  store that was registered first and leaves the \<open>stores\<close> object as it was; a following
  \<open>select(name)\<close> returns what the first store's \<open>getSelectors\<close> returns.
\<close>

theorem duplicate_registration_keeps_first_store:
  assumes "map_of (stores reg) name = Some first"
    and "getSelectors first = Some sel"
  shows "\<exists>reg'. registerStoreInstance name second reg = Inr (OwnMember first, reg')
           \<and> register (StoreDescriptor name second) reg = Inr reg'
           \<and> registerGenericStore name second reg = Inr reg'
           \<and> registerStore name True second reg = Inr (OwnMember first, reg')
           \<and> stores reg' = stores reg
           \<and> console_errors reg' =
               console_errors reg @ [''Store \"'' @ name @ ''\" is already registered.'']
           \<and> (\<exists>reg''. select (StoreName name) reg' = Inr (Some sel, reg''))"
proof -
  let ?reg' = "Registry (stores reg) (parent reg) (listeningStores reg) (registry_id reg)
                 (console_errors reg @ [''Store \"'' @ name @ ''\" is already registered.''])"
  have r: "registerStoreInstance name second reg = Inr (OwnMember first, ?reg')"
    using assms(1) by (simp add: registerStoreInstance_def plain_get_def)
  have s: "\<exists>reg''. select (StoreName name) ?reg' = Inr (Some sel, reg'')"
    using assms by (simp add: Let_def plain_get_def)
  show ?thesis
    using r s by (intro exI [of _ ?reg']) (simp add: registerGenericStore_def registerStore_def)
qed

theorem duplicate_registration_keeps_first_store_witness:
  "\<exists>reg'. registerStoreInstance ''todos''
             \<lparr>getSelectors = Some (2::nat), getActions = Some (), subscribe = True,
              emitter_listeners = None\<rparr>
             (Registry [(''todos'', \<lparr>getSelectors = Some 1, getActions = Some (), subscribe = True,
                          emitter_listeners = Some [GlobalListener 0]\<rparr>)] None None 0 [])
           = Inr (OwnMember \<lparr>getSelectors = Some 1, getActions = Some (), subscribe = True,
                    emitter_listeners = Some [GlobalListener 0]\<rparr>, reg')
         \<and> stores reg' = [(''todos'', \<lparr>getSelectors = Some 1, getActions = Some (), subscribe = True,
                          emitter_listeners = Some [GlobalListener 0]\<rparr>)]
         \<and> (\<exists>reg''. select (StoreName ''todos'') reg' = Inr (Some 1, reg''))"
  using duplicate_registration_keeps_first_store
      [of "Registry [(''todos'', \<lparr>getSelectors = Some (1::nat), getActions = Some (), subscribe = True,
                          emitter_listeners = Some [GlobalListener 0]\<rparr>)] None None 0 []"
          "''todos''"
          "\<lparr>getSelectors = Some 1, getActions = Some (), subscribe = True,
                          emitter_listeners = Some [GlobalListener 0]\<rparr>"
          1
          "\<lparr>getSelectors = Some (2::nat), getActions = Some (), subscribe = True,
              emitter_listeners = None\<rparr>"]
  by auto





section \<open>Properties of createSelector\<close>

lemma isShallowEqual_loop_drop:
  "length a = length b \<Longrightarrow> isShallowEqual_loop a b i = (drop i a = drop i b)"
proof (induction a b i rule: isShallowEqual_loop.induct)
  case (1 a b i)
  show ?case
  proof (cases "i < length a")
    case True
    then have da: "drop i a = a ! i # drop (Suc i) a" and db: "drop i b = b ! i # drop (Suc i) b"
      using "1.prems" by (simp_all add: Cons_nth_drop_Suc)
    show ?thesis
      using True "1.IH" "1.prems" by (subst isShallowEqual_loop.simps) (auto simp: da db)
  next
    case False
    then show ?thesis using "1.prems" by (subst isShallowEqual_loop.simps) simp
  qed
qed

lemma isShallowEqual_drop:
  "isShallowEqual a b n = (length a = length b \<and> drop n a = drop n b)"
  by (simp add: isShallowEqual_def isShallowEqual_loop_drop)

lemma isShallowEqual_0: "isShallowEqual a b 0 = (a = b)"
  by (auto simp: isShallowEqual_drop)

lemma map_of_m_set: "map_of (m_set k v m) = (map_of m)(k \<mapsto> v)"
  by (induction m) auto

lemma getCache_path: "fst (getCache ds t) = takeWhile isObject ds"
proof (induction ds arbitrary: t)
  case Nil
  then show ?case by (cases t) simp
next
  case (Cons d ds)
  show ?case
    by (cases t) (simp add: Let_def split_beta Cons.IH)
qed

lemma cache_at_empty [simp]: "cache_at q (CacheTree None []) = None"
  by (cases q) simp_all

lemma getCache_at_path:
  "cache_at (takeWhile isObject ds) (snd (getCache ds t)) =
     Some (case cache_at (takeWhile isObject ds) t of
             Some c \<Rightarrow> c | None \<Rightarrow> createCache (list_all isObject ds))"
proof (induction ds arbitrary: t)
  case Nil
  then show ?case by (cases t) (simp split: option.splits)
next
  case (Cons d ds)
  obtain lf ch where t: "t = CacheTree lf ch" by (cases t)
  show ?case
  proof (cases "isObject d")
    case False
    then show ?thesis by (simp add: t split: option.splits)
  next
    case True
    show ?thesis
    proof (cases "map_of ch d")
      case None
      show ?thesis
        using True None Cons.IH [of "CacheTree None []"]
        by (simp add: t Let_def split_beta map_of_m_set split: option.splits)
    next
      case (Some m)
      then show ?thesis
        using True Cons.IH [of m]
        by (simp add: t Let_def split_beta map_of_m_set split: option.splits)
    qed
  qed
qed

lemma getCache_at_other:
  "q \<noteq> takeWhile isObject ds \<Longrightarrow> cache_at q (snd (getCache ds t)) = cache_at q t"
proof (induction ds arbitrary: t q)
  case Nil
  then show ?case by (cases t; cases q) simp_all
next
  case (Cons d ds)
  obtain lf ch where t: "t = CacheTree lf ch" by (cases t)
  show ?case
  proof (cases "isObject d")
    case False
    then show ?thesis using Cons.prems by (cases q) (simp_all add: t)
  next
    case True
    show ?thesis
    proof (cases q)
      case Nil
      then show ?thesis using True by (simp add: t Let_def split_beta)
    next
      case (Cons e q')
      show ?thesis
      proof (cases "e = d")
        case False
        then show ?thesis using True Cons by (simp add: t Let_def split_beta map_of_m_set)
      next
        case e: True
        with Cons.prems True Cons have ne: "q' \<noteq> takeWhile isObject ds" by simp
        show ?thesis
          using True Cons e Cons.IH [OF ne]
          by (simp add: t Let_def split_beta map_of_m_set split: option.splits)
      qed
    qed
  qed
qed

lemma cache_at_put:
  "cache_at p t \<noteq> None \<Longrightarrow> cache_at q (cache_put p c t) = (if q = p then Some c else cache_at q t)"
proof (induction p arbitrary: t q)
  case Nil
  then show ?case by (cases t; cases q) simp_all
next
  case (Cons d p)
  obtain lf ch where t: "t = CacheTree lf ch" by (cases t)
  from Cons.prems obtain m where m: "map_of ch d = Some m" and ne: "cache_at p m \<noteq> None"
    by (auto simp: t split: option.splits)
  note IH = Cons.IH [OF ne]
  show ?case
  proof (cases q)
    case Nil
    then show ?thesis by (simp add: t m)
  next
    case q: (Cons e q')
    show ?thesis
      by (simp add: q t m map_of_m_set IH)
  qed
qed


lemma callSelector_unfold:
  "callSelector selector gd args st =
     (let p = takeWhile isObject (gd args);
          tree = snd (getCache (gd args) (rootCache st));
          cache = cache_for (gd args) (rootCache st)
      in case find_node args (head cache) of
           Some (node, others) \<Rightarrow>
             (snd node, st\<lparr>rootCache := cache_put p (cache\<lparr>head := node # others\<rparr>) tree\<rparr>)
         | None \<Rightarrow>
             (selector (calls st) args,
              st\<lparr>rootCache := cache_put p
                     (cache\<lparr>head := (null_source args, selector (calls st) args) # head cache\<rparr>) tree,
                 calls := Suc (calls st)\<rparr>))"
proof -
  define tr where "tr = snd (getCache (gd args) (rootCache st))"
  have g: "getCache (gd args) (rootCache st) = (takeWhile isObject (gd args), tr)"
    using getCache_path [of "gd args" "rootCache st"] unfolding tr_def
    by (cases "getCache (gd args) (rootCache st)") simp
  have at: "cache_at (takeWhile isObject (gd args)) tr =
     Some (case cache_at (takeWhile isObject (gd args)) (rootCache st) of
             Some c \<Rightarrow> c | None \<Rightarrow> createCache (list_all isObject (gd args)))"
    using getCache_at_path [of "gd args" "rootCache st"] unfolding tr_def by simp
  show ?thesis
    unfolding callSelector_def cache_for_def Let_def g
    by (simp add: at split: option.splits prod.splits)
qed

lemma callSelector_hit:
  assumes "find_node args (head (cache_for (gd args) (rootCache st))) = Some (node, others)"
  shows "fst (callSelector selector gd args st) = snd node"
    and "calls (snd (callSelector selector gd args st)) = calls st"
    and "cache_at q (rootCache (snd (callSelector selector gd args st))) =
           (if q = takeWhile isObject (gd args)
            then Some ((cache_for (gd args) (rootCache st))\<lparr>head := node # others\<rparr>)
            else cache_at q (rootCache st))"
proof -
  have ne: "cache_at (takeWhile isObject (gd args)) (snd (getCache (gd args) (rootCache st))) \<noteq> None"
    by (simp add: getCache_at_path)
  show "fst (callSelector selector gd args st) = snd node"
    and "calls (snd (callSelector selector gd args st)) = calls st"
    by (simp_all add: callSelector_unfold Let_def assms)
  show "cache_at q (rootCache (snd (callSelector selector gd args st))) =
           (if q = takeWhile isObject (gd args)
            then Some ((cache_for (gd args) (rootCache st))\<lparr>head := node # others\<rparr>)
            else cache_at q (rootCache st))"
    by (simp add: callSelector_unfold Let_def assms cache_at_put [OF ne] getCache_at_other)
qed

lemma callSelector_miss:
  assumes "find_node args (head (cache_for (gd args) (rootCache st))) = None"
  shows "fst (callSelector selector gd args st) = selector (calls st) args"
    and "calls (snd (callSelector selector gd args st)) = Suc (calls st)"
    and "cache_at q (rootCache (snd (callSelector selector gd args st))) =
           (if q = takeWhile isObject (gd args)
            then Some ((cache_for (gd args) (rootCache st))
                   \<lparr>head := (null_source args, selector (calls st) args)
                             # head (cache_for (gd args) (rootCache st))\<rparr>)
            else cache_at q (rootCache st))"
proof -
  have ne: "cache_at (takeWhile isObject (gd args)) (snd (getCache (gd args) (rootCache st))) \<noteq> None"
    by (simp add: getCache_at_path)
  show "fst (callSelector selector gd args st) = selector (calls st) args"
    and "calls (snd (callSelector selector gd args st)) = Suc (calls st)"
    by (simp_all add: callSelector_unfold Let_def assms)
  show "cache_at q (rootCache (snd (callSelector selector gd args st))) =
           (if q = takeWhile isObject (gd args)
            then Some ((cache_for (gd args) (rootCache st))
                   \<lparr>head := (null_source args, selector (calls st) args)
                             # head (cache_for (gd args) (rootCache st))\<rparr>)
            else cache_at q (rootCache st))"
    by (simp add: callSelector_unfold Let_def assms cache_at_put [OF ne] getCache_at_other)
qed

lemma find_node_head:
  "isShallowEqual (fst node) args 1 \<Longrightarrow> find_node args (node # rest) = Some (node, rest)"
  by simp

lemma find_node_Some:
  "find_node args ns = Some (node, others) \<Longrightarrow>
     isShallowEqual (fst node) args 1 \<and> set (node # others) = set ns"
proof (induction ns arbitrary: others)
  case Nil
  then show ?case by simp
next
  case (Cons n ns)
  show ?case
  proof (cases "isShallowEqual (fst n) args 1")
    case True
    with Cons.prems show ?thesis by auto
  next
    case False
    with Cons.prems obtain o' where f: "find_node args ns = Some (node, o')" and o: "others = n # o'"
      by (auto split: option.splits)
    from Cons.IH [OF f] show ?thesis by (auto simp: o)
  qed
qed

lemma null_source_matches:
  "args \<noteq> [] \<Longrightarrow> isShallowEqual (null_source args) args 1"
  by (cases args) (simp_all add: isShallowEqual_drop)

lemma isShallowEqual_tail:
  "isShallowEqual a args1 1 \<Longrightarrow> args1 \<noteq> [] \<Longrightarrow> args2 \<noteq> [] \<Longrightarrow> tl args1 = tl args2 \<Longrightarrow>
   isShallowEqual a args2 1"
  by (cases args1; cases args2) (auto simp: isShallowEqual_drop)

lemma guard_cache_fields:
  "isUniqueByDependants (guard_cache d c) = isUniqueByDependants c"
  "\<not> isUniqueByDependants c \<Longrightarrow> lastDependants (guard_cache d c) = Some d"
  by (auto simp: guard_cache_def Let_def split: option.splits)

lemma guard_cache_same:
  "(\<not> isUniqueByDependants c \<Longrightarrow> lastDependants c = Some d) \<Longrightarrow> guard_cache d c = c"
  by (auto simp: guard_cache_def Let_def isShallowEqual_0)


lemma guard_cache_head_nil: "head c = [] \<Longrightarrow> head (guard_cache d c) = []"
  by (auto simp: guard_cache_def Let_def split: option.splits)

lemma guard_cache_clears:
  "\<not> isUniqueByDependants c \<Longrightarrow> lastDependants c = Some l \<Longrightarrow> l \<noteq> d \<Longrightarrow>
   head (guard_cache d c) = []"
  by (auto simp: guard_cache_def Let_def isShallowEqual_0)

lemma guard_cache_keeps:
  "\<not> isUniqueByDependants c \<Longrightarrow> lastDependants c = Some d \<Longrightarrow> guard_cache d c = c"
  by (rule guard_cache_same) simp

lemma takeWhile_eq_same_length:
  "takeWhile P ys = xs \<Longrightarrow> length ys = length xs \<Longrightarrow> ys = xs"
  by (induction ys arbitrary: xs) (auto split: if_splits)

lemma takeWhile_all: "list_all P xs \<Longrightarrow> takeWhile P xs = xs"
  by (induction xs) auto

lemma first_call_leaves_entry:
  "\<exists>c n rest. cache_at (takeWhile isObject (gd args))
             (rootCache (snd (callSelector selector gd args st))) = Some c
      \<and> head c = n # rest
      \<and> snd n = fst (callSelector selector gd args st)
      \<and> (args \<noteq> [] \<longrightarrow> isShallowEqual (fst n) args 1)
      \<and> isUniqueByDependants c = isUniqueByDependants (cache_for (gd args) (rootCache st))
      \<and> (\<not> isUniqueByDependants c \<longrightarrow> lastDependants c = Some (gd args))"
proof -
  let ?D = "gd args"
  let ?c0 = "cache_for ?D (rootCache st)"
  have c0_last: "\<not> isUniqueByDependants ?c0 \<Longrightarrow> lastDependants ?c0 = Some ?D"
    by (simp add: cache_for_def guard_cache_fields)
  show ?thesis
  proof (cases "find_node args (head ?c0)")
    case None
    show ?thesis
      using callSelector_miss [where args = args and gd = gd and st = st and selector = selector, OF None] c0_last
        null_source_matches [of args]
      by auto
  next
    case (Some a)
    obtain n rest where a: "a = (n, rest)" by (cases a)
    show ?thesis
      using callSelector_hit [where args = args and gd = gd and st = st and selector = selector, OF Some [unfolded a]] c0_last
        find_node_Some [OF Some [unfolded a]]
      by (cases n) auto
  qed
qed

lemma first_call_frame:
  "q \<noteq> takeWhile isObject (gd args) \<Longrightarrow>
   cache_at q (rootCache (snd (callSelector selector gd args st))) = cache_at q (rootCache st)"
proof (cases "find_node args (head (cache_for (gd args) (rootCache st)))")
  case None
  assume "q \<noteq> takeWhile isObject (gd args)"
  then show ?thesis
    using callSelector_miss(3) [where args = args and gd = gd and st = st and selector = selector and q = q, OF None] by simp
next
  case (Some a)
  obtain n rest where a: "a = (n, rest)" by (cases a)
  assume "q \<noteq> takeWhile isObject (gd args)"
  then show ?thesis
    using callSelector_hit(3) [where args = args and gd = gd and st = st and selector = selector and q = q, OF Some [unfolded a]] by simp
qed

lemma cache_for_unique_created:
  "cache_at (takeWhile isObject d) t = None \<Longrightarrow>
   isUniqueByDependants (cache_for d t) = list_all isObject d"
  by (simp add: cache_for_def guard_cache_fields createCache_def)

lemma cache_for_unique_found:
  "cache_at (takeWhile isObject d) t = Some c \<Longrightarrow>
   isUniqueByDependants (cache_for d t) = isUniqueByDependants c"
  by (simp add: cache_for_def guard_cache_fields)

lemma second_call_outcome:
  "(case find_node args (head (cache_for (gd args) (rootCache st))) of
      None \<Rightarrow> fst (callSelector selector gd args st) = selector (calls st) args
               \<and> calls (snd (callSelector selector gd args st)) = Suc (calls st)
    | Some (n, others) \<Rightarrow> fst (callSelector selector gd args st) = snd n
               \<and> calls (snd (callSelector selector gd args st)) = calls st)"
proof (cases "find_node args (head (cache_for (gd args) (rootCache st)))")
  case None
  then show ?thesis
    using callSelector_miss(1,2) [where args = args and gd = gd and st = st and selector = selector, OF None] by simp
next
  case (Some a)
  obtain n rest where a: "a = (n, rest)" by (cases a)
  show ?thesis
    using callSelector_hit(1,2) [where args = args and gd = gd and st = st and selector = selector, OF Some [unfolded a]]
    by (simp add: Some a)
qed

text \<open>
  C4, as stated, fails: a cache reached through object dependants keeps its entries, so a
  call whose dependant differs from the previous call's is answered from the cache when
  an earlier call had the same dependants. Below, the three calls have the dependants
  \<open>[A]\<close>, \<open>[B]\<close>, \<open>[A]\<close> and the same trailing argument: the third differs from the
  second in its dependant, and it returns the result of the first run (run 0) without
  running the selector again.
\<close>

theorem changed_dependant_served_from_cache_counterexample:
  "arrayOf [Obj 1 False [], Prim (PNum 5)] \<noteq> arrayOf [Obj 2 False [], Prim (PNum 5)]
   \<and> length (arrayOf [Obj 1 False [], Prim (PNum 5)])
       = length (arrayOf [Obj 2 False [], Prim (PNum 5)])
   \<and> calls (snd (callSelector run_number_selector arrayOf [Obj 1 False [], Prim (PNum 5)]
        (snd (callSelector run_number_selector arrayOf [Obj 2 False [], Prim (PNum 5)]
          (snd (callSelector run_number_selector arrayOf [Obj 1 False [], Prim (PNum 5)]
             createSelector_init))))))
     = calls (snd (callSelector run_number_selector arrayOf [Obj 2 False [], Prim (PNum 5)]
          (snd (callSelector run_number_selector arrayOf [Obj 1 False [], Prim (PNum 5)]
             createSelector_init))))
   \<and> fst (callSelector run_number_selector arrayOf [Obj 1 False [], Prim (PNum 5)]
        (snd (callSelector run_number_selector arrayOf [Obj 2 False [], Prim (PNum 5)]
          (snd (callSelector run_number_selector arrayOf [Obj 1 False [], Prim (PNum 5)]
             createSelector_init))))) = 0"
  by code_simp

text \<open>
  C4, amended. Two successive calls, in any state of the caches. When both pass a source
  argument and have the same dependants, element by element, and the same arguments
  after the first, the second returns the result of the first and the selector does not
  run, whatever the first argument. When their dependants differ, the second call runs the
  selector if the cache its dependants lead to did not exist before the first call (and
  the arrays have the same length, or the object dependants that lead to it are not the
  whole first array), or if that cache is the cache of the first call and is not unique by
  dependants. When the two calls lead to different caches, the first call plays no part in
  the second: the second runs the selector exactly when its own cache, as it was before
  the first call and once its guard has run, has no entry for the arguments after the
  first, and otherwise returns the result in that entry and does not run the selector.
\<close>

theorem memoized_selector_reuse_and_recompute:
  "(args1 \<noteq> [] \<and> args2 \<noteq> [] \<and> gd args2 = gd args1 \<and> tl args2 = tl args1 \<longrightarrow>
            fst (callSelector selector gd args2 (snd (callSelector selector gd args1 st)))
              = fst (callSelector selector gd args1 st)
          \<and> calls (snd (callSelector selector gd args2 (snd (callSelector selector gd args1 st))))
              = calls (snd (callSelector selector gd args1 st)))
       \<and> (gd args2 \<noteq> gd args1
            \<and> (case cache_at (takeWhile isObject (gd args2)) (rootCache st) of
                  None \<Rightarrow> length (gd args2) = length (gd args1)
                            \<or> takeWhile isObject (gd args2) \<noteq> gd args1
                | Some c \<Rightarrow> \<not> isUniqueByDependants c
                            \<and> takeWhile isObject (gd args2) = takeWhile isObject (gd args1)) \<longrightarrow>
            fst (callSelector selector gd args2 (snd (callSelector selector gd args1 st)))
              = selector (calls (snd (callSelector selector gd args1 st))) args2
          \<and> calls (snd (callSelector selector gd args2 (snd (callSelector selector gd args1 st))))
              = Suc (calls (snd (callSelector selector gd args1 st))))
       \<and> (takeWhile isObject (gd args2) \<noteq> takeWhile isObject (gd args1) \<longrightarrow>
            (case find_node args2 (head (cache_for (gd args2) (rootCache st))) of
               None \<Rightarrow>
                 fst (callSelector selector gd args2 (snd (callSelector selector gd args1 st)))
                   = selector (calls (snd (callSelector selector gd args1 st))) args2
               \<and> calls (snd (callSelector selector gd args2 (snd (callSelector selector gd args1 st))))
                   = Suc (calls (snd (callSelector selector gd args1 st)))
             | Some (node, others) \<Rightarrow>
                 fst (callSelector selector gd args2 (snd (callSelector selector gd args1 st)))
                   = snd node
               \<and> calls (snd (callSelector selector gd args2 (snd (callSelector selector gd args1 st))))
                   = calls (snd (callSelector selector gd args1 st))))"
proof -
  let ?D = "gd args1"
  let ?E = "gd args2"
  let ?p = "takeWhile isObject ?D"
  let ?q = "takeWhile isObject ?E"
  let ?st1 = "snd (callSelector selector gd args1 st)"
  let ?r1 = "fst (callSelector selector gd args1 st)"
  from first_call_leaves_entry [where args = args1 and gd = gd and selector = selector and st = st]
  obtain c n rest where c: "cache_at ?p (rootCache ?st1) = Some c"
    and h: "head c = n # rest" and r: "snd n = ?r1" and m: "args1 \<noteq> [] \<longrightarrow> isShallowEqual (fst n) args1 1"
    and u: "isUniqueByDependants c = isUniqueByDependants (cache_for ?D (rootCache st))"
    and l: "\<not> isUniqueByDependants c \<longrightarrow> lastDependants c = Some ?D"
    by blast
  have reuse: "fst (callSelector selector gd args2 ?st1) = ?r1
      \<and> calls (snd (callSelector selector gd args2 ?st1)) = calls ?st1"
    if same: "args1 \<noteq> [] \<and> args2 \<noteq> [] \<and> ?E = ?D \<and> tl args2 = tl args1"
  proof -
    have cf: "cache_for ?E (rootCache ?st1) = c"
      using same c l by (simp add: cache_for_def guard_cache_same)
    have m2: "isShallowEqual (fst n) args2 1"
      using isShallowEqual_tail [of "fst n" args1 args2] m same by simp
    have f: "find_node args2 (head (cache_for ?E (rootCache ?st1))) = Some (n, rest)"
      using m2 by (simp add: cf h)
    show ?thesis
      using callSelector_hit(1,2) [where args = args2 and gd = gd and st = "?st1" and selector = selector, OF f] r by simp
  qed
  have frame: "cache_for ?E (rootCache ?st1) = cache_for ?E (rootCache st)" if "?q \<noteq> ?p"
    using first_call_frame [where q = "?q" and gd = gd and args = args1 and selector = selector and st = st, OF that] by (simp add: cache_for_def)
  have shared: "head (cache_for ?E (rootCache ?st1)) = []"
    if eq: "?q = ?p" and nu: "\<not> isUniqueByDependants (cache_for ?D (rootCache st))"
      and ne: "?E \<noteq> ?D"
  proof -
    have cf: "cache_for ?E (rootCache ?st1) = guard_cache ?E c"
      unfolding cache_for_def eq c by simp
    have nu1: "\<not> isUniqueByDependants c" using nu u by simp
    have l1: "lastDependants c = Some ?D" using l nu1 by simp
    have ne': "?D \<noteq> ?E" using ne by auto
    show ?thesis
      unfolding cf by (rule guard_cache_clears [OF nu1 l1 ne'])
  qed
  have recompute: "fst (callSelector selector gd args2 ?st1) = selector (calls ?st1) args2
      \<and> calls (snd (callSelector selector gd args2 ?st1)) = Suc (calls ?st1)"
    if diff: "?E \<noteq> ?D
            \<and> (case cache_at ?q (rootCache st) of
                  None \<Rightarrow> length ?E = length ?D \<or> ?q \<noteq> ?D
                | Some c \<Rightarrow> \<not> isUniqueByDependants c \<and> ?q = ?p)"
  proof -
    have h2: "head (cache_for ?E (rootCache ?st1)) = []"
    proof (cases "cache_at ?q (rootCache st)")
      case None
      show ?thesis
      proof (cases "?q = ?p")
        case False
        show ?thesis
          unfolding frame [OF False]
          by (simp add: cache_for_def None guard_cache_head_nil createCache_def)
      next
        case True
        have qD: "?q \<noteq> ?D"
          using diff None by (auto dest: takeWhile_eq_same_length)
        have nu: "\<not> list_all isObject ?D"
        proof
          assume "list_all isObject ?D"
          then have "?p = ?D" by (rule takeWhile_all)
          with True qD show False by simp
        qed
        have "\<not> isUniqueByDependants (cache_for ?D (rootCache st))"
          using cache_for_unique_created [of ?D "rootCache st"] None True nu by simp
        then show ?thesis
          using shared True diff by blast
      qed
    next
      case (Some c0)
      with diff have eq: "?q = ?p" and nu0: "\<not> isUniqueByDependants c0" by simp_all
      have "\<not> isUniqueByDependants (cache_for ?D (rootCache st))"
        using cache_for_unique_found [of ?D "rootCache st" c0] Some eq nu0 by simp
      then show ?thesis
        using shared eq diff by blast
    qed
    have miss2: "find_node args2 (head (cache_for ?E (rootCache ?st1))) = None"
      by (simp add: h2)
    show ?thesis
      using callSelector_miss(1,2) [where args = args2 and gd = gd and st = "?st1" and selector = selector, OF miss2] by simp
  qed
  have other: "(case find_node args2 (head (cache_for ?E (rootCache st))) of
               None \<Rightarrow>
                 fst (callSelector selector gd args2 ?st1) = selector (calls ?st1) args2
               \<and> calls (snd (callSelector selector gd args2 ?st1)) = Suc (calls ?st1)
             | Some (node, others) \<Rightarrow>
                 fst (callSelector selector gd args2 ?st1) = snd node
               \<and> calls (snd (callSelector selector gd args2 ?st1)) = calls ?st1)"
    if "?q \<noteq> ?p"
    using second_call_outcome [where args = args2 and gd = gd and st = "?st1" and selector = selector] unfolding frame [OF that] .
  show ?thesis
    using reuse recompute other by blast
qed

theorem memoized_selector_reuse_and_recompute_witness:
  "fst (callSelector run_number_selector (\<lambda>args. [args ! 1]) [Obj 9 False [], Prim (PNum 5)]
          (snd (callSelector run_number_selector (\<lambda>args. [args ! 1]) [Obj 1 False [], Prim (PNum 5)]
                  createSelector_init)))
     = fst (callSelector run_number_selector (\<lambda>args. [args ! 1]) [Obj 1 False [], Prim (PNum 5)]
              createSelector_init)
   \<and> fst (callSelector run_number_selector arrayOf [Obj 2 False [], Prim (PNum 5)]
          (snd (callSelector run_number_selector arrayOf [Obj 1 False [], Prim (PNum 5)] createSelector_init)))
     = run_number_selector
         (calls (snd (callSelector run_number_selector arrayOf [Obj 1 False [], Prim (PNum 5)]
                        createSelector_init)))
         [Obj 2 False [], Prim (PNum 5)]
   \<and> fst (callSelector run_number_selector arrayOf [Obj 1 False [], Prim (PNum 5)]
          (snd (callSelector run_number_selector arrayOf [Obj 2 False [], Prim (PNum 5)]
             (snd (callSelector run_number_selector arrayOf [Obj 1 False [], Prim (PNum 5)]
                createSelector_init)))))
     = 0"
proof -
  let ?A = "[Obj 1 False [], Prim (PNum 5)]"
  let ?B = "[Obj 2 False [], Prim (PNum 5)]"
  let ?stA = "snd (callSelector run_number_selector arrayOf ?A createSelector_init)"
  have s: "?A \<noteq> [] \<and> [Obj 9 False [], Prim (PNum 5)] \<noteq> []
      \<and> (\<lambda>args. [args ! 1]) [Obj 9 False [], Prim (PNum 5)] = (\<lambda>args. [args ! 1]) ?A
      \<and> tl [Obj 9 False [], Prim (PNum 5)] = tl ?A"
    by simp
  have d: "arrayOf ?B \<noteq> arrayOf ?A
      \<and> (case cache_at (takeWhile isObject (arrayOf ?B))
                 (rootCache (createSelector_init :: nat memo)) of
            None \<Rightarrow> length (arrayOf ?B) = length (arrayOf ?A)
                       \<or> takeWhile isObject (arrayOf ?B) \<noteq> arrayOf ?A
          | Some c \<Rightarrow> \<not> isUniqueByDependants c
                       \<and> takeWhile isObject (arrayOf ?B) = takeWhile isObject (arrayOf ?A))"
    by (simp add: createSelector_init_def)
  have o: "takeWhile isObject (arrayOf ?A) \<noteq> takeWhile isObject (arrayOf ?B)"
    by simp
  have f: "find_node ?A (head (cache_for (arrayOf ?A) (rootCache ?stA)))
             = Some (([Prim PNull, Prim (PNum 5)], 0), [])"
    by code_simp
  show ?thesis
    using memoized_selector_reuse_and_recompute
        [of ?A "[Obj 9 False [], Prim (PNum 5)]" "\<lambda>args. [args ! 1]" run_number_selector
           createSelector_init]
      memoized_selector_reuse_and_recompute
        [of ?A ?B arrayOf run_number_selector createSelector_init]
      memoized_selector_reuse_and_recompute
        [of ?B ?A arrayOf run_number_selector ?stA]
      s d o f
    by simp
qed


text \<open>
  C5, as stated, fails: the guard calls \<open>isShallowEqual(dependants, cache.lastDependants, 0)\<close>,
  so index 0 is compared like every other index. Below, the dependants of the two calls
  are \<open>[1]\<close> and \<open>[2]\<close>, primitive and equal once index 0 is ignored; the second call
  finds the cache cleared, runs the selector (run 1) and leaves one entry.
\<close>

theorem dependants_guard_index_0_counterexample:
  "\<not> list_all isObject (count_dependants [Obj 2 False [(''count'', Prim (PNum 2))]])
   \<and> isShallowEqual (count_dependants [Obj 2 False [(''count'', Prim (PNum 2))]])
        (count_dependants [Obj 1 False [(''count'', Prim (PNum 1))]]) 1
   \<and> callSelector run_number_selector count_dependants [Obj 2 False [(''count'', Prim (PNum 2))]]
        (snd (callSelector run_number_selector count_dependants
               [Obj 1 False [(''count'', Prim (PNum 1))]] createSelector_init))
     = (1, \<lparr>rootCache = CacheTree
               (Some \<lparr>isUniqueByDependants = False, head = [([Prim PNull], 1)],
                      lastDependants = Some [Prim (PNum 2)]\<rparr>) [],
            calls = 2\<rparr>)"
  by code_simp

text \<open>
  C5, amended. The cache of a call is the one at the end of the object dependants that
  come before the first primitive dependant, so calls that agree on these share it. When
  that cache is not unique by its dependants (one created by a call that met a primitive
  dependant), it remembers the dependants of the last call and the guard compares the
  whole arrays, from index 0: after a call with dependants \<open>d1\<close>, a call on the same cache
  with the same dependants keeps every entry, and a call with dependants that differ in
  length or at any index, index 0 included, finds the cache emptied, runs the selector
  and leaves its own entry alone in the cache.
\<close>

theorem non_unique_cache_guard_compares_from_index_0:
  assumes prim: "\<not> list_all isObject (gd args1)"
    and same_path: "takeWhile isObject (gd args2) = takeWhile isObject (gd args1)"
    and guarded: "case cache_at (takeWhile isObject (gd args1)) (rootCache st) of
                    None \<Rightarrow> True | Some c \<Rightarrow> \<not> isUniqueByDependants c"
  shows "\<exists>c1 c2.
      cache_at (takeWhile isObject (gd args1)) (rootCache (snd (callSelector selector gd args1 st)))
        = Some c1
    \<and> cache_at (takeWhile isObject (gd args1))
        (rootCache (snd (callSelector selector gd args2 (snd (callSelector selector gd args1 st)))))
        = Some c2
    \<and> lastDependants c1 = Some (gd args1)
    \<and> lastDependants c2 = Some (gd args2)
    \<and> (if gd args2 = gd args1 then set (head c1) \<subseteq> set (head c2)
       else head c2 =
              [(null_source args2,
                selector (calls (snd (callSelector selector gd args1 st))) args2)]
          \<and> fst (callSelector selector gd args2 (snd (callSelector selector gd args1 st)))
              = selector (calls (snd (callSelector selector gd args1 st))) args2
          \<and> calls (snd (callSelector selector gd args2 (snd (callSelector selector gd args1 st))))
              = Suc (calls (snd (callSelector selector gd args1 st))))"
proof -
  let ?D = "gd args1"
  let ?p = "takeWhile isObject ?D"
  let ?c0 = "cache_for ?D (rootCache st)"
  let ?st1 = "snd (callSelector selector gd args1 st)"
  let ?st2 = "snd (callSelector selector gd args2 ?st1)"
  have u0: "\<not> isUniqueByDependants ?c0"
    using prim guarded
    by (auto simp: cache_for_def guard_cache_fields createCache_def split: option.splits)
  have l0: "lastDependants ?c0 = Some ?D"
    using u0 by (simp add: cache_for_def guard_cache_fields)
  have first: "\<exists>c1. cache_at ?p (rootCache ?st1) = Some c1 \<and> \<not> isUniqueByDependants c1
      \<and> lastDependants c1 = Some ?D"
  proof (cases "find_node args1 (head ?c0)")
    case None
    show ?thesis
      using callSelector_miss(3) [where gd = gd and args = args1 and st = st
          and selector = selector and q = "?p", OF None] u0 l0
      by simp
  next
    case (Some a)
    obtain n rest where a: "a = (n, rest)" by (cases a)
    show ?thesis
      using callSelector_hit(3) [where gd = gd and args = args1 and st = st
          and selector = selector and q = "?p", OF Some [unfolded a]] u0 l0
      by simp
  qed
  then obtain c1 where c1: "cache_at ?p (rootCache ?st1) = Some c1"
    and u1: "\<not> isUniqueByDependants c1" and l1: "lastDependants c1 = Some ?D"
    by blast
  let ?g = "guard_cache (gd args2) c1"
  have cf: "cache_for (gd args2) (rootCache ?st1) = ?g"
    unfolding cache_for_def same_path c1 by simp
  have lg: "lastDependants ?g = Some (gd args2)"
    using u1 by (simp add: guard_cache_fields)
  show ?thesis
  proof (cases "gd args2 = gd args1")
    case True
    have g: "?g = c1" using True u1 l1 by (simp add: guard_cache_keeps)
    show ?thesis
    proof (cases "find_node args2 (head c1)")
      case None
      have f: "find_node args2 (head (cache_for (gd args2) (rootCache ?st1))) = None"
        by (simp add: cf g None)
      have "cache_at ?p (rootCache ?st2) =
          Some (c1\<lparr>head := (null_source args2, selector (calls ?st1) args2) # head c1\<rparr>)"
        using callSelector_miss(3) [where gd = gd and args = args2 and st = "?st1"
            and selector = selector and q = "?p", OF f]
        by (simp add: same_path cf g)
      then show ?thesis using c1 l1 True by auto
    next
      case (Some a)
      obtain n rest where a: "a = (n, rest)" by (cases a)
      have f: "find_node args2 (head (cache_for (gd args2) (rootCache ?st1))) = Some (n, rest)"
        using Some by (simp add: cf g a)
      have "cache_at ?p (rootCache ?st2) = Some (c1\<lparr>head := n # rest\<rparr>)"
        using callSelector_hit(3) [where gd = gd and args = args2 and st = "?st1"
            and selector = selector and q = "?p", OF f]
        by (simp add: same_path cf g)
      moreover have "set (n # rest) = set (head c1)"
        using find_node_Some [OF Some [unfolded a]] by simp
      ultimately show ?thesis using c1 l1 True by auto
    qed
  next
    case False
    have hg: "head ?g = []"
      using False by (intro guard_cache_clears [OF u1 l1]) auto
    have f: "find_node args2 (head (cache_for (gd args2) (rootCache ?st1))) = None"
      by (simp add: cf hg)
    note m = callSelector_miss [where gd = gd and args = args2 and st = "?st1"
            and selector = selector, OF f]
    have "cache_at ?p (rootCache ?st2) =
          Some (?g\<lparr>head := [(null_source args2, selector (calls ?st1) args2)]\<rparr>)"
      using m(3) [of ?p] by (simp add: same_path cf hg)
    then show ?thesis using c1 l1 lg False m(1) m(2) by auto
  qed
qed

theorem non_unique_cache_guard_compares_from_index_0_witness:
  "\<exists>c1 c2.
      cache_at [] (rootCache (snd (callSelector run_number_selector count_dependants [Obj 1 False [(''count'', Prim (PNum 1))]]
                     createSelector_init))) = Some c1
    \<and> cache_at []
        (rootCache (snd (callSelector run_number_selector count_dependants [Obj 2 False [(''count'', Prim (PNum 2))]]
           (snd (callSelector run_number_selector count_dependants [Obj 1 False [(''count'', Prim (PNum 1))]]
                     createSelector_init))))) = Some c2
    \<and> lastDependants c1 = Some [Prim (PNum 1)]
    \<and> lastDependants c2 = Some [Prim (PNum 2)]
    \<and> head c2 = [([Prim PNull], 1)]"
proof -
  have p: "\<not> list_all isObject (count_dependants [Obj 1 False [(''count'', Prim (PNum 1))]])" by simp
  have q: "takeWhile isObject (count_dependants [Obj 2 False [(''count'', Prim (PNum 2))]])
      = takeWhile isObject (count_dependants [Obj 1 False [(''count'', Prim (PNum 1))]])" by simp
  have g: "case cache_at (takeWhile isObject (count_dependants [Obj 1 False [(''count'', Prim (PNum 1))]]))
                  (rootCache (createSelector_init :: nat memo)) of
             None \<Rightarrow> True | Some c \<Rightarrow> \<not> isUniqueByDependants c"
    by (simp add: createSelector_init_def)
  have c: "calls (snd (callSelector run_number_selector count_dependants [Obj 1 False [(''count'', Prim (PNum 1))]]
                     createSelector_init)) = 1"
    by code_simp
  have d: "count_dependants [Obj 1 False [(''count'', Prim (PNum 1))]] = [Prim (PNum 1)]"
    "count_dependants [Obj 2 False [(''count'', Prim (PNum 2))]] = [Prim (PNum 2)]"
    "null_source [Obj 2 False [(''count'', Prim (PNum 2))]] = [Prim PNull]"
    by simp_all
  from non_unique_cache_guard_compares_from_index_0
        [of count_dependants "[Obj 1 False [(''count'', Prim (PNum 1))]]" "[Obj 2 False [(''count'', Prim (PNum 2))]]" createSelector_init run_number_selector, OF p q g]
  obtain c1 c2 where
    "cache_at [] (rootCache (snd (callSelector run_number_selector count_dependants [Obj 1 False [(''count'', Prim (PNum 1))]]
                     createSelector_init))) = Some c1"
    "cache_at []
        (rootCache (snd (callSelector run_number_selector count_dependants [Obj 2 False [(''count'', Prim (PNum 2))]]
           (snd (callSelector run_number_selector count_dependants [Obj 1 False [(''count'', Prim (PNum 1))]]
                     createSelector_init))))) = Some c2"
    "lastDependants c1 = Some [Prim (PNum 1)]"
    "lastDependants c2 = Some [Prim (PNum 2)]"
    "head c2 = [([Prim PNull], 1)]"
    unfolding d c by (auto simp: run_number_selector_def)
  then show ?thesis by blast
qed


section \<open>EquivalentKeyMap: delete and the entries it leaves\<close>

text \<open>
  C3. \<open>delete(k)\<close> on a key that is present returns true, and the \<open>has(k)\<close> that
  follows returns true as well, not false: \<open>delete\<close> is \<open>this.set(key, undefined)\<close>, so
  the key stays in the map with the value \<open>undefined\<close>. Below, for the primitive key
  \<open>'a'\<close>, and for the composite key \<open>{a: 1}\<close> deleted through an equivalent key.
\<close>

theorem delete_then_has_is_true:
  "ekm_set (ekm_clear :: nat ekm) (Prim (PStr ''a'')) (SVal 1)
     = Inr (EKM [] [(Prim (PStr ''a''), SVal 1)] [] [])
   \<and> ekm_delete (EKM [] [(Prim (PStr ''a''), SVal (1::nat))] [] []) (Prim (PStr ''a''))
     = Inr (True, EKM [] [(Prim (PStr ''a''), SUndef)] [] [])
   \<and> ekm_has (EKM [] [(Prim (PStr ''a''), SUndef :: nat stored)] [] []) (Prim (PStr ''a''))
     = Inr (True, EKM [] [(Prim (PStr ''a''), SUndef)] [] [])
   \<and> (case ekm_set (ekm_clear :: nat ekm) (Obj 1 False [(''a'', Prim (PNum 1))]) (SVal 1) of
        Inl e \<Rightarrow> False
      | Inr m \<Rightarrow>
          (case ekm_delete m (Obj 2 False [(''a'', Prim (PNum 1))]) of
             Inl e \<Rightarrow> False
           | Inr (deleted, m') \<Rightarrow>
               deleted \<and>
               (case ekm_has m' (Obj 2 False [(''a'', Prim (PNum 1))]) of
                  Inl e \<Rightarrow> False
                | Inr (present, m'') \<Rightarrow> present)))"
  by code_simp

section \<open>The resolution state: hasResolvingSelectors on an invalidated entry\<close>

text \<open>
  C7. After \<open>startResolution('f', [1])\<close> and \<open>invalidateResolution('f', [1])\<close> the map of
  \<open>'f'\<close> holds the key with the value \<open>undefined\<close>; \<open>hasResolvingSelectors\<close> reads
  \<open>resolution.status\<close> of that value and throws a TypeError.
\<close>

theorem hasResolvingSelectors_throws_on_invalidated_entry:
  "(case isResolved sample_toKey []
           (startResolution ''f'' (Obj 1 True [(''0'', Prim (PNum 1))])) of
      Inl e \<Rightarrow> False
    | Inr s \<Rightarrow>
        hasResolvingSelectors s = Inr True \<and>
        (case isResolved sample_toKey s
                (invalidateResolution ''f'' (Obj 2 True [(''0'', Prim (PNum 1))])) of
           Inl e \<Rightarrow> False
         | Inr s' \<Rightarrow>
             hasResolvingSelectors s'
               = Inl (EkmTypeError ''Cannot read properties of undefined (reading 'status')'')))"
  by code_simp


section \<open>EquivalentKeyMap: a property named like the leaf slot\<close>

text \<open>
  C1, the code against the claim. The leaf of a key is stored under the string
  \<open>'_ekm_value'\<close> in the same Map that holds the nodes of the property names, so the
  leaf of the key \<open>{}\<close> and the node of a property named \<open>_ekm_value\<close> share one slot.
  On a map that holds the key \<open>{}\<close>, \<open>set({_ekm_value: 1}, 2)\<close> throws a TypeError and
  sets nothing. In the other order both calls return, and the \<open>get\<close> of an equivalent
  key \<open>{_ekm_value: 1}\<close> that follows throws.
\<close>

theorem set_throws_on_property_named_like_the_leaf_slot:
  "ekm_set (ekm_clear :: nat ekm) (Obj 1 False []) (SVal 1)
     = Inr (EKM [(Obj 1 False [], SVal 1)] [(Obj 1 False [], SPair 0)] []
              [(Prim (PStr ''_ekm_value''), SPair 0)])
   \<and> ekm_set (EKM [(Obj 1 False [], SVal (1::nat))] [(Obj 1 False [], SPair 0)] []
                [(Prim (PStr ''_ekm_value''), SPair 0)])
        (Obj 2 False [(''_ekm_value'', Prim (PNum 1))]) (SVal 2)
     = Inl (EkmTypeError ''map.has is not a function'')
   \<and> (case ekm_set (ekm_clear :: nat ekm) (Obj 2 False [(''_ekm_value'', Prim (PNum 1))]) (SVal 2) of
        Inl e \<Rightarrow> False
      | Inr m \<Rightarrow>
          map_sum id fst (ekm_get m (Obj 3 False [(''_ekm_value'', Prim (PNum 1))])) = Inr (SVal 2)
          \<and> (case ekm_set m (Obj 1 False []) (SVal 1) of
                Inl e \<Rightarrow> False
              | Inr m' \<Rightarrow>
                  ekm_get m' (Obj 3 False [(''_ekm_value'', Prim (PNum 1))])
                    = Inl (EkmTypeError ''map.get is not a function'')))"
  by code_simp


section \<open>The resolution state: selectors and actions that throw\<close>

text \<open>
  C2, the code against the claim. On the initial state \<open>{}\<close>, where no action has been
  dispatched, \<open>isResolving('toString', args)\<close> is not false: \<open>state['toString']\<close> is the
  function that the state object inherits from \<open>Object.prototype\<close>, and the call of its
  missing \<open>get\<close> throws a TypeError. For a name that the state object does not inherit
  the result is false.
\<close>

theorem isResolving_throws_on_object_prototype_name:
  "isResolving sample_toKey [] ''toString'' None
     = Inl (EkmTypeError ''map.get is not a function'')
   \<and> isResolving sample_toKey [] ''toString'' (Some (Obj 1 True [(''0'', Prim (PNum 1))]))
     = Inl (EkmTypeError ''map.get is not a function'')
   \<and> isResolving sample_toKey [] ''f'' (Some (Obj 1 True [(''0'', Prim (PNum 1))]))
     = Inr (False, [])"
  by code_simp

text \<open>
  C6, the code against the claim. After \<open>startResolution('f', [{}])\<close>, the action
  \<open>failResolution('f', [{_ekm_value: 1}], null)\<close> makes the reducer throw a TypeError in
  \<open>nextState.set\<close>: no state follows in which \<open>hasResolutionFailed\<close> could return true.
  With the argument list \<open>[1]\<close> the same action, with the error \<open>null\<close>, leads to
  a state in which \<open>hasResolutionFailed('f', [1])\<close> is true.
\<close>

theorem failResolution_throws_on_property_named_like_the_leaf_slot:
  "(case isResolved sample_toKey []
           (startResolution ''f'' (Obj 1 True [(''0'', Obj 2 False [])])) of
      Inl e \<Rightarrow> False
    | Inr s \<Rightarrow>
        isResolved sample_toKey s
          (failResolution ''f''
             (Obj 3 True [(''0'', Obj 4 False [(''_ekm_value'', Prim (PNum 1))])]) (Prim PNull))
          = Inl (EkmTypeError ''map.get is not a function''))
   \<and> (case isResolved sample_toKey []
           (startResolution ''f'' (Obj 1 True [(''0'', Prim (PNum 1))])) of
      Inl e \<Rightarrow> False
    | Inr s \<Rightarrow>
        (case isResolved sample_toKey s
                (failResolution ''f'' (Obj 3 True [(''0'', Prim (PNum 1))]) (Prim PNull)) of
           Inl e \<Rightarrow> False
         | Inr s' \<Rightarrow>
             map_sum id fst
               (hasResolutionFailed sample_toKey s' ''f''
                  (Some (Obj 5 True [(''0'', Prim (PNum 1))]))) = Inr True))"
  by code_simp

end
